(* ===== verification/Ssn_Prelude.thy ===== *)
theory Ssn_Prelude
  imports Main "HOL-Library.Word"
begin

text \<open>
  Prelude of the SSN development: the machine integer types, the memory primitives
  (\<open>memcpy\<close>, NUL-terminated strings, little-endian storage of multi-byte fields) and
  the generic lemmas that the component theories share.

  The collections: \<open>codec\<close> holds the equations that turn stored fields back into
  their values, \<open>buf\<close> the equations on partially written buffers.
\<close>

unbundle bit_operations_syntax

named_theorems codec \<open>load and store of fixed-width fields\<close>
named_theorems buf \<open>writes into and reads from byte buffers\<close>

type_synonym byte = "8 word"
type_synonym u16 = "16 word"
type_synonym u32 = "32 word"
type_synonym u64 = "64 word"
type_synonym bytes = "byte list"

section \<open>Memory\<close>

text \<open>
  A C buffer is the list of the bytes written to it so far; bytes behind that prefix are
  uninitialised and never read. \<open>memcpy_at b p s\<close> is \<^verbatim>\<open>memcpy(b + p, s, len)\<close>.
\<close>

definition memcpy_at :: "'a list \<Rightarrow> nat \<Rightarrow> 'a list \<Rightarrow> 'a list" where
  "memcpy_at b p s = take p b @ s @ drop (p + length s) b"

definition mem_slice :: "'a list \<Rightarrow> nat \<Rightarrow> nat \<Rightarrow> 'a list" where
  "mem_slice b p n = take n (drop p b)"

text \<open>The bytes \<^verbatim>\<open>strlen\<close> and \<^verbatim>\<open>strcmp\<close> see behind a \<^verbatim>\<open>char *\<close>.\<close>

definition cstr :: "bytes \<Rightarrow> bytes" where
  "cstr m = takeWhile (\<lambda>b. b \<noteq> 0) m"

section \<open>Multi-byte fields in memory\<close>

text \<open>The library is built for little-endian Linux hosts: a 16 or 32-bit field is stored
  with its least significant byte first.\<close>

definition le16 :: "u16 \<Rightarrow> bytes" where
  "le16 w = [ucast w, ucast (drop_bit 8 w)]"

definition of_le16 :: "byte \<Rightarrow> byte \<Rightarrow> u16" where
  "of_le16 a b = (ucast a :: u16) OR push_bit 8 (ucast b)"

definition le32 :: "u32 \<Rightarrow> bytes" where
  "le32 w = [ucast w, ucast (drop_bit 8 w), ucast (drop_bit 16 w), ucast (drop_bit 24 w)]"

definition of_le32 :: "byte \<Rightarrow> byte \<Rightarrow> byte \<Rightarrow> byte \<Rightarrow> u32" where
  "of_le32 a b c d =
     (ucast a :: u32) OR push_bit 8 (ucast b) OR push_bit 16 (ucast c) OR push_bit 24 (ucast d)"

lemma of_le16_le16 [codec, simp]: "of_le16 (ucast w) (ucast (drop_bit 8 w)) = w"
  unfolding of_le16_def by (rule bit_word_eqI) (auto simp: bit_simps)

lemma of_le32_le32 [codec, simp]:
  "of_le32 (ucast w) (ucast (drop_bit 8 w)) (ucast (drop_bit 16 w)) (ucast (drop_bit 24 w)) = w"
proof (rule bit_word_eqI)
  fix n
  assume n: "n < LENGTH(32)"
  have "n < 8 \<or> 8 \<le> n \<and> n < 16 \<or> 16 \<le> n \<and> n < 24 \<or> 24 \<le> n" by arith
  then show "bit (of_le32 (ucast w) (ucast (drop_bit 8 w)) (ucast (drop_bit 16 w))
      (ucast (drop_bit 24 w))) n = bit w n"
    using n by (auto simp: of_le32_def bit_simps)
qed

lemma length_le16 [simp]: "length (le16 w) = 2"
  by (simp add: le16_def)

lemma length_le32 [simp]: "length (le32 w) = 4"
  by (simp add: le32_def)

section \<open>Buffers\<close>

lemma length_memcpy_at [buf]:
  "length (memcpy_at b p s) = max (length b) (min p (length b) + length s)"
  by (auto simp: memcpy_at_def)

lemma memcpy_at_end [buf]: "memcpy_at b (length b) s = b @ s"
  by (simp add: memcpy_at_def)

lemma take_memcpy_at [buf]:
  "p \<le> length b \<Longrightarrow> n = p + length s \<Longrightarrow> take n (memcpy_at b p s) = take p b @ s"
  by (simp add: memcpy_at_def min_def)

lemma take_memcpy_at_below [buf]:
  "n \<le> p \<Longrightarrow> p \<le> length b \<Longrightarrow> take n (memcpy_at b p s) = take n b"
  by (simp add: memcpy_at_def min_def)

lemma mem_slice_memcpy_at [buf]:
  assumes "h \<le> p" "p \<le> length b" "n = p + length s - h"
  shows "mem_slice (memcpy_at b p s) h n = mem_slice b h (p - h) @ s"
proof -
  have "mem_slice (memcpy_at b p s) h n = drop h (take (p + length s) (memcpy_at b p s))"
    using assms by (simp add: mem_slice_def drop_take)
  also have "take (p + length s) (memcpy_at b p s) = take p b @ s"
    using assms(2) by (rule take_memcpy_at) simp
  finally show ?thesis
    using assms by (simp add: mem_slice_def drop_take)
qed

lemma length_mem_slice [buf]: "length (mem_slice b p n) = min n (length b - p)"
  by (simp add: mem_slice_def min.commute)

lemma mem_slice_take [buf]: "k \<le> n \<Longrightarrow> take k (mem_slice b p n) = mem_slice b p k"
  by (simp add: mem_slice_def min_def)

lemma mem_slice_drop [buf]: "drop k (mem_slice b p n) = mem_slice b (p + k) (n - k)"
  by (simp add: mem_slice_def drop_take add.commute)

lemma cstr_no_nul [simp]: "0 \<notin> set s \<Longrightarrow> cstr (s @ 0 # t) = s"
  unfolding cstr_def by (induction s) auto

section \<open>Words\<close>

lemma unat_u16_less [simp]: "unat (w :: u16) < 65536"
  by (rule order_less_le_trans [OF unsigned_less]) simp

lemma unat_u32_less [simp]: "unat (w :: u32) < 4294967296"
  by (rule order_less_le_trans [OF unsigned_less]) simp

lemma unat_of_nat_u16 [simp]: "n < 65536 \<Longrightarrow> unat (of_nat n :: u16) = n"
  by (simp add: unsigned_of_nat take_bit_nat_eq_self)

lemma unat_of_nat_u32 [simp]: "n < 4294967296 \<Longrightarrow> unat (of_nat n :: u32) = n"
  by (simp add: unsigned_of_nat take_bit_nat_eq_self)

text \<open>The first index with a property, as the loops over fixed arrays find it.\<close>

lemma find_upt_Some:
  "List.find P [0..<n] = Some i \<longleftrightarrow> i < n \<and> P i \<and> (\<forall>j < i. \<not> P j)"
  by (auto simp: find_Some_iff)

lemma find_upt_None: "List.find P [0..<n] = None \<longleftrightarrow> (\<forall>i < n. \<not> P i)"
  by (auto simp: find_None_iff)

text \<open>Lists of buckets, as the hash tables of the code have them.\<close>

lemma find_concat:
  assumes "h < length xss" "\<And>k x. k < length xss \<Longrightarrow> x \<in> set (xss ! k) \<Longrightarrow> P x \<Longrightarrow> k = h"
  shows "List.find P (concat xss) = List.find P (xss ! h)"
proof -
  have app: "List.find P (xs @ ys) = (case List.find P xs of None \<Rightarrow> List.find P ys | Some x \<Rightarrow> Some x)" for xs ys
    by (induction xs) auto
  have "concat xss = concat (take h xss) @ (xss ! h) @ concat (drop (Suc h) xss)"
    using assms(1) by (metis concat.simps(2) concat_append id_take_nth_drop)
  moreover have "\<not> P x" if ys: "ys \<in> set (take h xss)" and x: "x \<in> set ys" for x ys
  proof -
    obtain k where "k < h" "ys = xss ! k" using ys assms(1) by (auto simp: in_set_conv_nth)
    with x assms show ?thesis by (metis less_trans nat_neq_iff)
  qed
  then have "List.find P (concat (take h xss)) = None" by (auto simp: find_None_iff)
  moreover have "\<not> P x" if ys: "ys \<in> set (drop (Suc h) xss)" and x: "x \<in> set ys" for x ys
  proof -
    obtain k where "k < length xss - Suc h" "ys = xss ! (Suc h + k)" using ys by (auto simp: in_set_conv_nth)
    moreover from this have "Suc h + k < length xss" by linarith
    ultimately show ?thesis using x assms(2) [of "Suc h + k" x] by auto
  qed
  then have "List.find P (concat (drop (Suc h) xss)) = None" by (auto simp: find_None_iff)
  ultimately show ?thesis by (simp add: app split: option.split)
qed

lemma concat_update:
  assumes "h < length xss" "\<And>k. k < length xss \<Longrightarrow> k \<noteq> h \<Longrightarrow> F (xss ! k) = xss ! k"
  shows "concat (xss[h := F (xss ! h)]) = concat (map F xss)"
proof -
  have "xss[h := F (xss ! h)] = map F xss"
    using assms by (intro nth_equalityI) (auto simp: nth_list_update)
  then show ?thesis by simp
qed

end
