(* ===== verification/Ssn_Address.thy ===== *)
theory Ssn_Address
  imports Ssn_Prelude
begin

text \<open>
  Transport addresses: \<^verbatim>\<open>ssn_address_t\<close>, \<^verbatim>\<open>ssn_address_parse\<close>, \<^verbatim>\<open>ssn_address_to_string\<close>
  and the transport type names of \<^verbatim>\<open>transports/ssn_transport.c\<close>.

  A C string is the \<open>string\<close> of its characters before the NUL. Ports are kept in host
  order (\<^verbatim>\<open>sin_port\<close> holds \<^verbatim>\<open>htons\<close> of them). Name resolution and the textual form of IP
  addresses are services of the C library and of the network: they are the fields of a
  record \<open>resolver\<close>, and \<open>resolver_ok\<close> names what their documentation says.
\<close>

section \<open>Types\<close>

datatype ssn_transport_type =
    SSN_TRANSPORT_UNIX | SSN_TRANSPORT_TCP | SSN_TRANSPORT_TCP6 | SSN_TRANSPORT_UDP
  | SSN_TRANSPORT_UDP6 | SSN_TRANSPORT_TLS | SSN_TRANSPORT_DTLS

datatype sockaddr =
    Sockaddr_un string
  | Sockaddr_in u32 u16
  | Sockaddr_in6 "128 word" u16

record ssn_address =
  addr_type :: ssn_transport_type
  addr_sock :: sockaddr
  address_str :: string

record resolver =
  inet_pton4 :: "string \<Rightarrow> u32 option"
  gethostbyname :: "string \<Rightarrow> u32 option"
  inet_pton6 :: "string \<Rightarrow> (128 word) option"
  inet_ntop4 :: "u32 \<Rightarrow> string"
  inet_ntop6 :: "128 word \<Rightarrow> string"

definition SSN_TRANSPORT_MAX_ADDRESS_LEN :: nat where
  "SSN_TRANSPORT_MAX_ADDRESS_LEN = 256"

section \<open>String functions of the C library\<close>

text \<open>\<^verbatim>\<open>strstr\<close>: the text before and after the first occurrence.\<close>

fun strstr :: "string \<Rightarrow> string \<Rightarrow> (string \<times> string) option" where
  "strstr [] sub = (if sub = [] then Some ([], []) else None)"
| "strstr (c # cs) sub =
     (if take (length sub) (c # cs) = sub then Some ([], drop (length sub) (c # cs))
      else map_option (\<lambda>(a, b). (c # a, b)) (strstr cs sub))"

text \<open>\<^verbatim>\<open>strchr\<close>: the text before and after the first occurrence of a character.\<close>

fun strchr :: "string \<Rightarrow> char \<Rightarrow> (string \<times> string) option" where
  "strchr [] x = None"
| "strchr (c # cs) x =
     (if c = x then Some ([], cs) else map_option (\<lambda>(a, b). (c # a, b)) (strchr cs x))"

definition is_space :: "char \<Rightarrow> bool" where
  "is_space c \<longleftrightarrow> c = CHR '' '' \<or> 9 \<le> (of_char c :: nat) \<and> (of_char c :: nat) \<le> 13"

definition is_digit :: "char \<Rightarrow> bool" where
  "is_digit c \<longleftrightarrow> 48 \<le> (of_char c :: nat) \<and> (of_char c :: nat) \<le> 57"

definition digit_val :: "char \<Rightarrow> int" where
  "digit_val c = int (of_char c) - 48"

fun digits_val :: "int \<Rightarrow> string \<Rightarrow> int" where
  "digits_val acc [] = acc"
| "digits_val acc (c # cs) = (if is_digit c then digits_val (10 * acc + digit_val c) cs else acc)"

text \<open>\<^verbatim>\<open>atoi\<close> of glibc: \<^verbatim>\<open>strtol\<close> saturates at 64 bits and the result is cut to an \<^verbatim>\<open>int\<close>.\<close>

definition clamp_long :: "int \<Rightarrow> int" where
  "clamp_long v = max (- (2 ^ 63)) (min (2 ^ 63 - 1) v)"

definition atoi :: "string \<Rightarrow> int" where
  "atoi s = (let t = dropWhile is_space s;
       v = (case t of
              [] \<Rightarrow> 0
            | c # cs \<Rightarrow> if c = CHR ''-'' then - digits_val 0 cs
                        else if c = CHR ''+'' then digits_val 0 cs
                        else digits_val 0 t)
     in sint (word_of_int (clamp_long v) :: 32 word))"

text \<open>\<^verbatim>\<open>%d\<close> and \<^verbatim>\<open>%u\<close> of a non-negative number.\<close>

fun show_nat :: "nat \<Rightarrow> string" where
  "show_nat n = (if n < 10 then [char_of (48 + n)] else show_nat (n div 10) @ [char_of (48 + n mod 10)])"

declare show_nat.simps [simp del]

section \<open>Parsing\<close>

definition parse_unix :: "string \<Rightarrow> ssn_address option" where
  "parse_unix rest = (let path = take 255 rest; str = ''unix://'' @ path
     in if length str \<ge> SSN_TRANSPORT_MAX_ADDRESS_LEN then None
        else Some \<lparr>addr_type = SSN_TRANSPORT_UNIX, addr_sock = Sockaddr_un (take 107 path),
                   address_str = str\<rparr>)"

text \<open>The \<^verbatim>\<open>tcp\<close> and \<^verbatim>\<open>udp\<close> branches run the same steps.\<close>

definition parse_inet :: "resolver \<Rightarrow> ssn_transport_type \<Rightarrow> string \<Rightarrow> string \<Rightarrow> ssn_address option" where
  "parse_inet res ty scheme rest = (case strchr rest CHR '':'' of
       None \<Rightarrow> None
     | Some (host, port_str) \<Rightarrow>
         if length host \<ge> 256 then None
         else let port = atoi port_str in
           if port \<le> 0 \<or> port > 65535 then None
           else let ip = (case inet_pton4 res host of
                            Some ip \<Rightarrow> Some ip
                          | None \<Rightarrow> gethostbyname res host);
                    str = scheme @ ''://'' @ host @ '':'' @ show_nat (nat port)
             in case ip of
                  None \<Rightarrow> None
                | Some ip \<Rightarrow>
                    if length str \<ge> SSN_TRANSPORT_MAX_ADDRESS_LEN then None
                    else Some \<lparr>addr_type = ty, addr_sock = Sockaddr_in ip (of_int port),
                               address_str = str\<rparr>)"

definition parse_tcp :: "resolver \<Rightarrow> string \<Rightarrow> ssn_address option" where
  "parse_tcp res rest = parse_inet res SSN_TRANSPORT_TCP ''tcp'' rest"

definition parse_udp :: "resolver \<Rightarrow> string \<Rightarrow> ssn_address option" where
  "parse_udp res rest = parse_inet res SSN_TRANSPORT_UDP ''udp'' rest"

text \<open>The \<^verbatim>\<open>tcp6\<close> and \<^verbatim>\<open>udp6\<close> branches: the host is in brackets.\<close>

definition parse_inet6 :: "resolver \<Rightarrow> ssn_transport_type \<Rightarrow> string \<Rightarrow> string \<Rightarrow> ssn_address option" where
  "parse_inet6 res ty scheme rest = (case rest of
       [] \<Rightarrow> None
     | c # cs \<Rightarrow>
       if c \<noteq> CHR ''['' then None
       else case strchr cs CHR '']'' of
         None \<Rightarrow> None
       | Some (host, after) \<Rightarrow>
           case after of
             [] \<Rightarrow> None
           | d # port_str \<Rightarrow>
             if d \<noteq> CHR '':'' then None
             else if length host = 0 \<or> length host \<ge> 256 then None
             else let port = atoi port_str in
               if port \<le> 0 \<or> port > 65535 then None
               else case inet_pton6 res host of
                 None \<Rightarrow> None
               | Some ip \<Rightarrow>
                   let str = scheme @ ''://['' @ host @ '']:'' @ show_nat (nat port)
                   in if length str \<ge> SSN_TRANSPORT_MAX_ADDRESS_LEN then None
                      else Some \<lparr>addr_type = ty, addr_sock = Sockaddr_in6 ip (of_int port),
                                 address_str = str\<rparr>)"

definition parse_tcp6 :: "resolver \<Rightarrow> string \<Rightarrow> ssn_address option" where
  "parse_tcp6 res rest = parse_inet6 res SSN_TRANSPORT_TCP6 ''tcp6'' rest"

definition parse_udp6 :: "resolver \<Rightarrow> string \<Rightarrow> ssn_address option" where
  "parse_udp6 res rest = parse_inet6 res SSN_TRANSPORT_UDP6 ''udp6'' rest"

definition ssn_address_parse :: "resolver \<Rightarrow> string \<Rightarrow> ssn_address option" where
  "ssn_address_parse res s = (case strstr s ''://'' of
       None \<Rightarrow> None
     | Some (protocol, rest) \<Rightarrow>
         if length protocol \<ge> 32 then None
         else if protocol = ''unix'' then parse_unix rest
         else if protocol = ''tcp'' then parse_tcp res rest
         else if protocol = ''udp'' then parse_udp res rest
         else if protocol = ''tcp6'' then parse_tcp6 res rest
         else if protocol = ''udp6'' then parse_udp6 res rest
         else None)"

section \<open>Printing\<close>

definition sock_string :: "resolver \<Rightarrow> string \<Rightarrow> sockaddr \<Rightarrow> string" where
  "sock_string res scheme a = (case a of
       Sockaddr_un path \<Rightarrow> scheme @ ''://'' @ path
     | Sockaddr_in ip port \<Rightarrow> scheme @ ''://'' @ inet_ntop4 res ip @ '':'' @ show_nat (unat port)
     | Sockaddr_in6 ip port \<Rightarrow> scheme @ ''://['' @ inet_ntop6 res ip @ '']:'' @ show_nat (unat port))"

text \<open>\<^verbatim>\<open>ssn_transport_type_to_string\<close> and its inverse; an unknown name is \<^verbatim>\<open>unix\<close>.\<close>

fun ssn_transport_type_to_string :: "ssn_transport_type \<Rightarrow> string" where
  "ssn_transport_type_to_string SSN_TRANSPORT_UNIX = ''unix''"
| "ssn_transport_type_to_string SSN_TRANSPORT_TCP = ''tcp''"
| "ssn_transport_type_to_string SSN_TRANSPORT_TCP6 = ''tcp6''"
| "ssn_transport_type_to_string SSN_TRANSPORT_UDP = ''udp''"
| "ssn_transport_type_to_string SSN_TRANSPORT_UDP6 = ''udp6''"
| "ssn_transport_type_to_string SSN_TRANSPORT_TLS = ''tls''"
| "ssn_transport_type_to_string SSN_TRANSPORT_DTLS = ''dtls''"

definition ssn_transport_type_from_string :: "string option \<Rightarrow> ssn_transport_type" where
  "ssn_transport_type_from_string s = (case s of
       None \<Rightarrow> SSN_TRANSPORT_UNIX
     | Some t \<Rightarrow>
         if t = ''unix'' then SSN_TRANSPORT_UNIX
         else if t = ''tcp'' then SSN_TRANSPORT_TCP
         else if t = ''tcp6'' then SSN_TRANSPORT_TCP6
         else if t = ''udp'' then SSN_TRANSPORT_UDP
         else if t = ''udp6'' then SSN_TRANSPORT_UDP6
         else if t = ''tls'' then SSN_TRANSPORT_TLS
         else if t = ''dtls'' then SSN_TRANSPORT_DTLS
         else SSN_TRANSPORT_UNIX)"

text \<open>\<^verbatim>\<open>snprintf\<close> keeps at most \<open>size - 1\<close> characters, and the function still returns true.\<close>

definition ssn_address_to_string :: "resolver \<Rightarrow> ssn_address \<Rightarrow> nat \<Rightarrow> string option" where
  "ssn_address_to_string res a n =
     (if n = 0 then None
      else case addr_type a of
        SSN_TRANSPORT_TLS \<Rightarrow> None
      | SSN_TRANSPORT_DTLS \<Rightarrow> None
      | ty \<Rightarrow> Some (take (n - 1) (sock_string res (ssn_transport_type_to_string ty) (addr_sock a))))"

section \<open>What the C library documents\<close>

definition resolver_ok :: "resolver \<Rightarrow> bool" where
  "resolver_ok res \<longleftrightarrow>
     (\<forall>ip. inet_pton4 res (inet_ntop4 res ip) = Some ip \<and> CHR '':'' \<notin> set (inet_ntop4 res ip)
         \<and> length (inet_ntop4 res ip) < 16) \<and>
     (\<forall>ip. inet_pton6 res (inet_ntop6 res ip) = Some ip \<and> CHR '']'' \<notin> set (inet_ntop6 res ip)
         \<and> inet_ntop6 res ip \<noteq> [] \<and> length (inet_ntop6 res ip) < 46)"

text \<open>Addresses that name a socket: the union holds the variant of the type, a path that
  fits \<^verbatim>\<open>sun_path\<close>, a port other than 0.\<close>

definition address_wf :: "ssn_address \<Rightarrow> bool" where
  "address_wf a \<longleftrightarrow> (case (addr_type a, addr_sock a) of
       (SSN_TRANSPORT_UNIX, Sockaddr_un p) \<Rightarrow> length p \<le> 107
     | (SSN_TRANSPORT_TCP, Sockaddr_in ip port) \<Rightarrow> port \<noteq> 0
     | (SSN_TRANSPORT_UDP, Sockaddr_in ip port) \<Rightarrow> port \<noteq> 0
     | (SSN_TRANSPORT_TCP6, Sockaddr_in6 ip port) \<Rightarrow> port \<noteq> 0
     | (SSN_TRANSPORT_UDP6, Sockaddr_in6 ip port) \<Rightarrow> port \<noteq> 0
     | _ \<Rightarrow> False)"

section \<open>Lemmas\<close>

lemma strchr_append [simp]: "x \<notin> set h \<Longrightarrow> strchr (h @ x # p) x = Some (h, p)"
  by (induction h) auto

lemma strchr_Some: "strchr s x = Some (a, b) \<Longrightarrow> s = a @ x # b \<and> x \<notin> set a"
  by (induction s arbitrary: a) (auto split: if_splits)

lemma digits_val_append:
  "list_all is_digit a \<Longrightarrow> digits_val v (a @ b) = digits_val (digits_val v a) b"
  by (induction a arbitrary: v) auto

lemma is_digit_char [simp]: "n < 10 \<Longrightarrow> is_digit (char_of (48 + n :: nat))"
  by (simp add: is_digit_def)

lemma digit_val_char [simp]: "n < 10 \<Longrightarrow> digit_val (char_of (48 + n :: nat)) = int n"
  by (simp add: digit_val_def)

lemma show_nat_digits: "list_all is_digit (show_nat n)"
proof (induction n rule: show_nat.induct)
  case (1 n)
  then show ?case by (cases "n < 10") (simp_all add: show_nat.simps [of n])
qed

lemma digits_val_show_nat: "digits_val 0 (show_nat n) = int n"
proof (induction n rule: show_nat.induct)
  case (1 n)
  show ?case
  proof (cases "n < 10")
    case True
    then show ?thesis by (simp add: show_nat.simps [of n])
  next
    case False
    with "1" have ih: "digits_val 0 (show_nat (n div 10)) = int (n div 10)" by simp
    have "digits_val 0 (show_nat n) = digits_val (int (n div 10)) [char_of (48 + n mod 10)]"
      using False by (simp add: show_nat.simps [of n] digits_val_append show_nat_digits ih)
    then show ?thesis by (simp, arith)
  qed
qed

lemma show_nat_Cons:
  obtains c cs where "show_nat n = c # cs" "is_digit c"
proof (cases "show_nat n")
  case Nil
  then show ?thesis by (subst (asm) show_nat.simps) (simp split: if_splits)
next
  case (Cons c cs)
  with show_nat_digits [of n] that show ?thesis by simp
qed

lemma atoi_show_nat: "n < 65536 \<Longrightarrow> atoi (show_nat n) = int n"
proof -
  assume n: "n < 65536"
  obtain c cs where s: "show_nat n = c # cs" and d: "is_digit c" by (rule show_nat_Cons)
  have c: "\<not> is_space c" "c \<noteq> CHR ''-''" "c \<noteq> CHR ''+''"
    using d by (auto simp: is_digit_def is_space_def)
  have "sint (word_of_int (int n) :: 32 word) = int n"
    using n by (simp add: signed_of_nat signed_take_bit_int_eq_self)
  then show ?thesis
    using n c digits_val_show_nat [of n] by (simp add: atoi_def s Let_def clamp_long_def)
qed

lemma show_nat_length: "n < 10 ^ k \<Longrightarrow> 0 < k \<Longrightarrow> length (show_nat n) \<le> k"
proof (induction k arbitrary: n)
  case 0
  then show ?case by simp
next
  case (Suc k)
  show ?case
  proof (cases "n < 10")
    case True
    then show ?thesis by (simp add: show_nat.simps [of n])
  next
    case False
    with Suc.prems have "0 < k" by (cases k) auto
    moreover have "n div 10 < 10 ^ k" using Suc.prems(1) by (simp add: less_mult_imp_div_less)
    ultimately have "length (show_nat (n div 10)) \<le> k" by (intro Suc.IH)
    with False show ?thesis by (simp add: show_nat.simps [of n])
  qed
qed

lemma show_nat_port_length: "length (show_nat (unat (p :: u16))) \<le> 5"
proof (rule show_nat_length)
  show "unat p < 10 ^ 5" by (rule order_less_le_trans [OF unat_u16_less]) simp
qed simp

lemma strstr_scheme [simp]:
  "strstr (''unix'' @ ''://'' @ r) ''://'' = Some (''unix'', r)"
  "strstr (''tcp'' @ ''://'' @ r) ''://'' = Some (''tcp'', r)"
  "strstr (''udp'' @ ''://'' @ r) ''://'' = Some (''udp'', r)"
  "strstr (''tcp6'' @ ''://'' @ r) ''://'' = Some (''tcp6'', r)"
  "strstr (''udp6'' @ ''://'' @ r) ''://'' = Some (''udp6'', r)"
  by (cases r; simp)+

lemma parse_scheme:
  "ssn_address_parse res (''unix'' @ ''://'' @ r) = parse_unix r"
  "ssn_address_parse res (''tcp'' @ ''://'' @ r) = parse_tcp res r"
  "ssn_address_parse res (''udp'' @ ''://'' @ r) = parse_udp res r"
  "ssn_address_parse res (''tcp6'' @ ''://'' @ r) = parse_tcp6 res r"
  "ssn_address_parse res (''udp6'' @ ''://'' @ r) = parse_udp6 res r"
  unfolding ssn_address_parse_def strstr_scheme by simp_all

text \<open>Every branch accepts the canonical text it stores, with the same result.\<close>

lemma parse_unix_reparse:
  "parse_unix r = Some a \<Longrightarrow> \<exists>q. address_str a = ''unix'' @ ''://'' @ q \<and> parse_unix q = Some a"
  by (rule exI [of _ "take 255 r"]) (auto simp: parse_unix_def Let_def split: if_splits)

lemma parse_inet_reparse:
  assumes "parse_inet res ty sch r = Some a"
  shows "\<exists>q. address_str a = sch @ ''://'' @ q \<and> parse_inet res ty sch q = Some a"
proof -
  from assms obtain host ps where r: "strchr r CHR '':'' = Some (host, ps)"
    by (auto simp: parse_inet_def split: option.splits)
  let ?p = "atoi ps"
  let ?q = "host @ CHR '':'' # show_nat (nat ?p)"
  have p: "0 < ?p" "?p \<le> 65535"
    using assms r by (auto simp: parse_inet_def Let_def split: if_splits option.splits)
  have h: "CHR '':'' \<notin> set host"
    using strchr_Some [OF r] by simp
  have "atoi (show_nat (nat ?p)) = ?p"
    using p by (simp add: atoi_show_nat)
  then have "parse_inet res ty sch ?q = parse_inet res ty sch r"
    using h by (simp add: parse_inet_def Let_def r)
  with assms have "parse_inet res ty sch ?q = Some a" by simp
  moreover have "address_str a = sch @ ''://'' @ ?q"
    using assms r by (auto simp: parse_inet_def Let_def split: if_splits option.splits)
  ultimately show ?thesis by blast
qed

lemma parse_inet6_reparse:
  assumes "parse_inet6 res ty sch r = Some a"
  shows "\<exists>q. address_str a = sch @ ''://'' @ q \<and> parse_inet6 res ty sch q = Some a"
proof -
  from assms obtain cs host ps where r: "r = CHR ''['' # cs"
      and cs: "strchr cs CHR '']'' = Some (host, CHR '':'' # ps)"
    by (auto simp: parse_inet6_def split: list.splits option.splits if_splits)
  let ?p = "atoi ps"
  let ?q = "CHR ''['' # host @ CHR '']'' # CHR '':'' # show_nat (nat ?p)"
  have p: "0 < ?p" "?p \<le> 65535"
    using assms r cs by (auto simp: parse_inet6_def Let_def split: if_splits option.splits)
  have h: "CHR '']'' \<notin> set host"
    using strchr_Some [OF cs] by simp
  have "atoi (show_nat (nat ?p)) = ?p"
    using p by (simp add: atoi_show_nat)
  then have "parse_inet6 res ty sch ?q = parse_inet6 res ty sch r"
    using h by (simp add: parse_inet6_def Let_def r cs)
  with assms have "parse_inet6 res ty sch ?q = Some a" by simp
  moreover have "address_str a = sch @ ''://'' @ ?q"
    using assms r cs by (auto simp: parse_inet6_def Let_def split: if_splits option.splits)
  ultimately show ?thesis by blast
qed

lemma parse_cases:
  assumes "ssn_address_parse res s = Some a"
  obtains r where "parse_unix r = Some a" | r where "parse_tcp res r = Some a"
    | r where "parse_udp res r = Some a" | r where "parse_tcp6 res r = Some a"
    | r where "parse_udp6 res r = Some a"
  using assms by (auto simp: ssn_address_parse_def split: option.splits if_splits)

lemma length_sock_string:
  assumes "resolver_ok res" "address_wf a"
  shows "length (sock_string res (ssn_transport_type_to_string (addr_type a)) (addr_sock a)) < 256"
proof -
  have i4: "\<And>ip. length (inet_ntop4 res ip) < 16" and i6: "\<And>ip. length (inet_ntop6 res ip) < 46"
    using assms(1) by (auto simp: resolver_ok_def)
  have p: "\<And>p :: u16. length (show_nat (unat p)) \<le> 5"
    by (rule show_nat_port_length)
  show ?thesis
  proof (cases "addr_sock a")
    case (Sockaddr_un x1)
    with assms(2) show ?thesis
      by (auto simp: address_wf_def sock_string_def split: ssn_transport_type.splits)
  next
    case (Sockaddr_in ip port)
    with assms(2) i4 [of ip] p [of port] show ?thesis
      by (auto simp: address_wf_def sock_string_def split: ssn_transport_type.splits)
  next
    case (Sockaddr_in6 ip port)
    with assms(2) i6 [of ip] p [of port] show ?thesis
      by (auto simp: address_wf_def sock_string_def split: ssn_transport_type.splits)
  qed
qed

section \<open>Properties\<close>

text \<open>The text printed for a socket address is accepted by the branch of its type.\<close>

lemma parse_unix_print:
  "length path \<le> 107 \<Longrightarrow> addr_type a = SSN_TRANSPORT_UNIX \<Longrightarrow> addr_sock a = Sockaddr_un path \<Longrightarrow>
   parse_unix path = Some (a\<lparr>address_str := ''unix'' @ ''://'' @ path\<rparr>)"
  by (cases a) (auto simp: parse_unix_def SSN_TRANSPORT_MAX_ADDRESS_LEN_def)

lemma port_facts:
  assumes "port \<noteq> (0 :: u16)"
  shows "uint port \<noteq> 0" "\<not> 65535 < uint port" "nat (uint port) = unat port" "unat port < 65536"
proof -
  have "unat port < 65536" by (rule order_less_le_trans [OF unat_u16_less]) simp
  then have "int (unat port) < 65536" by linarith
  with \<open>unat port < 65536\<close> assms
  show "uint port \<noteq> 0" "\<not> 65535 < uint port" "nat (uint port) = unat port" "unat port < 65536"
    by (simp_all add: unsigned_eq_0_iff)
qed

lemma parse_inet_print:
  assumes res: "resolver_ok res" and port: "port \<noteq> 0" and sch: "length sch \<le> 4"
    and a: "addr_type a = ty" "addr_sock a = Sockaddr_in ip port"
  shows "parse_inet res ty sch (inet_ntop4 res ip @ '':'' @ show_nat (unat port)) =
    Some (a\<lparr>address_str := sch @ ''://'' @ inet_ntop4 res ip @ '':'' @ show_nat (unat port)\<rparr>)"
proof -
  have i: "inet_pton4 res (inet_ntop4 res ip) = Some ip" "CHR '':'' \<notin> set (inet_ntop4 res ip)"
    "length (inet_ntop4 res ip) < 16"
    using res by (auto simp: resolver_ok_def)
  note p = port_facts [OF port] show_nat_port_length [of port]
  show ?thesis
    using i p sch a
    by (cases a) (simp add: parse_inet_def atoi_show_nat Let_def SSN_TRANSPORT_MAX_ADDRESS_LEN_def)
qed

lemma parse_inet6_print:
  assumes res: "resolver_ok res" and port: "port \<noteq> 0" and sch: "length sch \<le> 4"
    and a: "addr_type a = ty" "addr_sock a = Sockaddr_in6 ip port"
  shows "parse_inet6 res ty sch (''['' @ inet_ntop6 res ip @ '']:'' @ show_nat (unat port)) =
    Some (a\<lparr>address_str := sch @ ''://['' @ inet_ntop6 res ip @ '']:'' @ show_nat (unat port)\<rparr>)"
proof -
  have i: "inet_pton6 res (inet_ntop6 res ip) = Some ip" "CHR '']'' \<notin> set (inet_ntop6 res ip)"
    "inet_ntop6 res ip \<noteq> []" "length (inet_ntop6 res ip) < 46"
    using res by (auto simp: resolver_ok_def)
  note p = port_facts [OF port] show_nat_port_length [of port]
  show ?thesis
    using i p sch a
    by (cases a) (simp add: parse_inet6_def atoi_show_nat Let_def SSN_TRANSPORT_MAX_ADDRESS_LEN_def)
qed

lemma parse_scheme6:
  "ssn_address_parse res (''tcp6'' @ ''://['' @ r) = parse_tcp6 res (''['' @ r)"
  "ssn_address_parse res (''udp6'' @ ''://['' @ r) = parse_udp6 res (''['' @ r)"
  using parse_scheme(4,5) [of res "''['' @ r"] by simp_all

text \<open>C22. The text an address keeps is canonical: whatever spelling was accepted, parsing the
  stored \<^verbatim>\<open>address_str\<close> gives exactly the same address again.\<close>

theorem parse_address_str:
  assumes "ssn_address_parse res s = Some a"
  shows "ssn_address_parse res (address_str a) = Some a"
  using assms
proof (cases rule: parse_cases)
  case (1 r)
  with parse_unix_reparse [OF 1] show ?thesis by (auto simp: parse_scheme simp del: append.simps)
next
  case (2 r)
  with parse_inet_reparse [of res SSN_TRANSPORT_TCP "''tcp''" r a] show ?thesis
    by (auto simp: parse_scheme parse_tcp_def simp del: append.simps)
next
  case (3 r)
  with parse_inet_reparse [of res SSN_TRANSPORT_UDP "''udp''" r a] show ?thesis
    by (auto simp: parse_scheme parse_udp_def simp del: append.simps)
next
  case (4 r)
  with parse_inet6_reparse [of res SSN_TRANSPORT_TCP6 "''tcp6''" r a] show ?thesis
    by (auto simp: parse_scheme parse_tcp6_def simp del: append.simps)
next
  case (5 r)
  with parse_inet6_reparse [of res SSN_TRANSPORT_UDP6 "''udp6''" r a] show ?thesis
    by (auto simp: parse_scheme parse_udp6_def simp del: append.simps)
qed

text \<open>A resolver that writes and reads addresses as decimal numbers, for the examples.\<close>

definition decimal_resolver :: resolver where
  "decimal_resolver = \<lparr>
     inet_pton4 = (\<lambda>s. if s \<noteq> [] \<and> list_all is_digit s then Some (of_int (digits_val 0 s)) else None),
     gethostbyname = (\<lambda>s. if s = ''localhost'' then Some 0x7F000001 else None),
     inet_pton6 = (\<lambda>s. if s \<noteq> [] \<and> list_all is_digit s then Some (of_int (digits_val 0 s)) else None),
     inet_ntop4 = (\<lambda>ip. show_nat (unat ip)),
     inet_ntop6 = (\<lambda>ip. show_nat (unat ip))\<rparr>"

lemma show_nat_nonempty [simp]: "show_nat n \<noteq> []"
  by (rule show_nat_Cons [of n]) simp

lemma show_nat_not_in: "\<not> is_digit c \<Longrightarrow> c \<notin> set (show_nat n)"
  using show_nat_digits [of n] by (auto simp: list_all_iff)

lemma decimal_resolver_ok: "resolver_ok decimal_resolver"
proof -
  have "length (show_nat (unat ip)) < 16" for ip :: u32
  proof -
    have "unat ip < 10 ^ 10" by (rule order_less_le_trans [OF unat_u32_less]) simp
    then have "length (show_nat (unat ip)) \<le> 10" by (rule show_nat_length) simp
    then show ?thesis by simp
  qed
  moreover have "length (show_nat (unat ip)) < 46" for ip :: "128 word"
  proof -
    have "unat ip < 2 ^ 128" by (rule order_less_le_trans [OF unsigned_less]) simp
    then have "unat ip < 10 ^ 39" by simp
    then have "length (show_nat (unat ip)) \<le> 39" by (rule show_nat_length) simp
    then show ?thesis by simp
  qed
  moreover have "CHR '':'' \<notin> set (show_nat n)" "CHR '']'' \<notin> set (show_nat n)" for n
    by (rule show_nat_not_in, simp add: is_digit_def)+
  ultimately show ?thesis
    by (simp add: resolver_ok_def decimal_resolver_def show_nat_digits digits_val_show_nat)
qed

theorem parse_address_str_witness:
  "ssn_address_parse decimal_resolver ''tcp://localhost:+080''
     = Some \<lparr>addr_type = SSN_TRANSPORT_TCP, addr_sock = Sockaddr_in 0x7F000001 80,
             address_str = ''tcp://localhost:80''\<rparr> \<and>
   ssn_address_parse decimal_resolver ''tcp://localhost:80''
     = Some \<lparr>addr_type = SSN_TRANSPORT_TCP, addr_sock = Sockaddr_in 0x7F000001 80,
             address_str = ''tcp://localhost:80''\<rparr>"
proof -
  have h: "ssn_address_parse decimal_resolver ''tcp://localhost:+080''
     = Some \<lparr>addr_type = SSN_TRANSPORT_TCP, addr_sock = Sockaddr_in 0x7F000001 80,
             address_str = ''tcp://localhost:80''\<rparr>"
    by code_simp
  show ?thesis using h parse_address_str [OF h] by simp
qed

text \<open>C21. Printing and parsing are inverse on addresses that name a socket: the text written by
  \<^verbatim>\<open>ssn_address_to_string\<close> into a buffer of \<^verbatim>\<open>SSN_TRANSPORT_MAX_ADDRESS_LEN\<close> bytes is not cut, and
  \<^verbatim>\<open>ssn_address_parse\<close> reads back the same transport type and socket address from it.\<close>

theorem parse_to_string:
  assumes res: "resolver_ok res" and wf: "address_wf a"
  shows "\<exists>s. ssn_address_to_string res a SSN_TRANSPORT_MAX_ADDRESS_LEN = Some s \<and>
     ssn_address_parse res s = Some (a\<lparr>address_str := s\<rparr>)"
proof -
  let ?s = "sock_string res (ssn_transport_type_to_string (addr_type a)) (addr_sock a)"
  have len: "length ?s < 256" using res wf by (rule length_sock_string)
  have ts: "ssn_address_to_string res a SSN_TRANSPORT_MAX_ADDRESS_LEN = Some ?s"
    using wf len by (auto simp: ssn_address_to_string_def SSN_TRANSPORT_MAX_ADDRESS_LEN_def
        address_wf_def split: ssn_transport_type.splits)
  have "ssn_address_parse res ?s = Some (a\<lparr>address_str := ?s\<rparr>)"
  proof (cases "addr_sock a")
    case (Sockaddr_un path)
    with wf show ?thesis
      by (auto simp: address_wf_def sock_string_def parse_scheme parse_unix_print
          simp del: append.simps split: ssn_transport_type.splits)
  next
    case (Sockaddr_in ip port)
    with wf show ?thesis
      by (auto simp: address_wf_def sock_string_def parse_scheme parse_tcp_def parse_udp_def
          parse_inet_print [OF res] simp del: append.simps split: ssn_transport_type.splits)
  next
    case (Sockaddr_in6 ip port)
    with wf show ?thesis
      by (auto simp: address_wf_def sock_string_def parse_scheme6 parse_tcp6_def parse_udp6_def
          parse_inet6_print [OF res] simp del: append.simps split: ssn_transport_type.splits)
  qed
  with ts show ?thesis by blast
qed

theorem parse_to_string_witness:
  "\<exists>s. ssn_address_to_string decimal_resolver
      \<lparr>addr_type = SSN_TRANSPORT_UDP, addr_sock = Sockaddr_in 7 9000, address_str = []\<rparr>
      SSN_TRANSPORT_MAX_ADDRESS_LEN = Some s \<and>
    ssn_address_parse decimal_resolver s =
      Some \<lparr>addr_type = SSN_TRANSPORT_UDP, addr_sock = Sockaddr_in 7 9000, address_str = s\<rparr>"
  using parse_to_string [OF decimal_resolver_ok, of
      "\<lparr>addr_type = SSN_TRANSPORT_UDP, addr_sock = Sockaddr_in 7 9000, address_str = []\<rparr>"]
  by (simp add: address_wf_def)


end
