(* ===== verification/Ssn_Os.thy ===== *)
theory Ssn_Os
  imports Ssn_Address
begin

text \<open>
  The operating system as the library sees it. What a system call answers is not decided by
  the library: the answers are the fields of a record \<open>syscalls\<close>, functions of the number
  of calls made so far (so the same call may answer differently later) and of the call's
  arguments. The record \<open>os\<close> is the state the calls act on: \<^verbatim>\<open>errno\<close>, the open file
  descriptors and which of them are in non-blocking mode, the addresses descriptors were
  bound and connected to, the paths removed with \<^verbatim>\<open>unlink\<close>, the milliseconds asked for in
  calls of \<^verbatim>\<open>poll\<close> so far, and the bytes the kernel has
  accepted for each descriptor, in order. Whether an allocation succeeds is an answer of the
  system as well (\<open>sc_calloc\<close>). The socket options set with \<^verbatim>\<open>setsockopt\<close> are not part of
  the state: no code reads them and no result of setting them is used.
  On Linux \<^verbatim>\<open>EWOULDBLOCK\<close> is \<^verbatim>\<open>EAGAIN\<close>.

  The hypothesis \<open>syscalls_ok\<close> names what POSIX documents of these calls: \<^verbatim>\<open>send\<close> and
  \<^verbatim>\<open>recv\<close> transfer at most the bytes asked for, a new descriptor is not an open one, and
  \<^verbatim>\<open>pselect\<close> reports descriptors it was asked about.

  The event pair of \<^verbatim>\<open>vsi/ipc_event.c\<close> is an \<^verbatim>\<open>eventfd\<close> on Linux: a counter that
  \<^verbatim>\<open>signal\<close> increments and \<^verbatim>\<open>drain\<close> reads to zero.
\<close>

datatype errno = ENONE | EAGAIN | EINTR | EINPROGRESS | ENOENT | EOTHER nat

datatype file_kind = No_file | Socket_file | Other_file | Stat_failed nat

record syscalls =
  sc_calloc :: "nat \<Rightarrow> bool"
  sc_socket :: "nat \<Rightarrow> int list \<Rightarrow> errno + int"
  sc_connect :: "nat \<Rightarrow> int \<Rightarrow> errno option"
  sc_select :: "nat \<Rightarrow> int \<Rightarrow> int"
  sc_so_error :: "nat \<Rightarrow> int \<Rightarrow> bool"
  sc_bind :: "nat \<Rightarrow> int \<Rightarrow> errno option"
  sc_listen :: "nat \<Rightarrow> int \<Rightarrow> errno option"
  sc_accept :: "nat \<Rightarrow> int list \<Rightarrow> int \<Rightarrow> errno + int"
  sc_peer :: "nat \<Rightarrow> int \<Rightarrow> sockaddr"
  sc_send :: "nat \<Rightarrow> int \<Rightarrow> nat \<Rightarrow> errno + nat"
  sc_recv :: "nat \<Rightarrow> int \<Rightarrow> nat \<Rightarrow> errno + bytes"
  sc_poll :: "nat \<Rightarrow> int \<Rightarrow> nat \<Rightarrow> errno + bool"
  sc_stat :: "nat \<Rightarrow> string \<Rightarrow> file_kind"
  sc_clock :: "nat \<Rightarrow> int \<times> int"
  sc_pselect :: "nat \<Rightarrow> int list \<Rightarrow> (int \<times> int) option \<Rightarrow> errno + int list"

record os =
  os_errno :: errno
  os_calls :: nat
  os_open :: "int list"
  os_nonblock :: "int list"
  os_bound :: "(int \<times> sockaddr) list"
  os_peer :: "(int \<times> sockaddr) list"
  os_unlinked :: "string list"
  os_waited :: nat
  os_sent :: "(int \<times> bytes) list"

definition os_init :: os where
  "os_init = \<lparr>os_errno = ENONE, os_calls = 0, os_open = [], os_nonblock = [], os_bound = [],
     os_peer = [], os_unlinked = [], os_waited = 0, os_sent = []\<rparr>"

definition os_tick :: "os \<Rightarrow> os" where
  "os_tick w = w\<lparr>os_calls := Suc (os_calls w)\<rparr>"

definition os_calloc :: "syscalls \<Rightarrow> os \<Rightarrow> bool \<times> os" where
  "os_calloc sc w = (sc_calloc sc (os_calls w), os_tick w)"

definition os_socket :: "syscalls \<Rightarrow> os \<Rightarrow> int \<times> os" where
  "os_socket sc w = (case sc_socket sc (os_calls w) (os_open w) of
       Inl e \<Rightarrow> (-1, os_tick w\<lparr>os_errno := e\<rparr>)
     | Inr fd \<Rightarrow> (fd, os_tick w\<lparr>os_open := fd # os_open w\<rparr>))"

definition os_close :: "int \<Rightarrow> os \<Rightarrow> os" where
  "os_close fd w = os_tick w\<lparr>os_open := removeAll fd (os_open w),
     os_nonblock := removeAll fd (os_nonblock w)\<rparr>"

text \<open>\<^verbatim>\<open>fcntl(fd, F_SETFL, flags | O_NONBLOCK)\<close> and \<^verbatim>\<open>unlink\<close>.\<close>

definition os_set_nonblock :: "int \<Rightarrow> os \<Rightarrow> os" where
  "os_set_nonblock fd w = os_tick w\<lparr>os_nonblock := fd # os_nonblock w\<rparr>"

definition os_unlink :: "string \<Rightarrow> os \<Rightarrow> os" where
  "os_unlink p w = os_tick w\<lparr>os_unlinked := p # os_unlinked w\<rparr>"

text \<open>\<^verbatim>\<open>accept\<close>: the descriptor and the address of the peer.\<close>

definition os_accept :: "syscalls \<Rightarrow> int \<Rightarrow> os \<Rightarrow> int \<times> sockaddr \<times> os" where
  "os_accept sc fd w = (case sc_accept sc (os_calls w) (os_open w) fd of
       Inl e \<Rightarrow> (-1, sc_peer sc (os_calls w) fd, os_tick w\<lparr>os_errno := e\<rparr>)
     | Inr c \<Rightarrow> (c, sc_peer sc (os_calls w) fd, os_tick w\<lparr>os_open := c # os_open w\<rparr>))"

definition os_status :: "errno option \<Rightarrow> os \<Rightarrow> bool \<times> os" where
  "os_status r w = (case r of
       None \<Rightarrow> (True, os_tick w)
     | Some e \<Rightarrow> (False, os_tick w\<lparr>os_errno := e\<rparr>))"

definition os_connect :: "syscalls \<Rightarrow> int \<Rightarrow> sockaddr \<Rightarrow> os \<Rightarrow> bool \<times> os" where
  "os_connect sc fd a w =
     os_status (sc_connect sc (os_calls w) fd) (w\<lparr>os_peer := (fd, a) # os_peer w\<rparr>)"

definition os_bind :: "syscalls \<Rightarrow> int \<Rightarrow> sockaddr \<Rightarrow> os \<Rightarrow> bool \<times> os" where
  "os_bind sc fd a w =
     os_status (sc_bind sc (os_calls w) fd) (w\<lparr>os_bound := (fd, a) # os_bound w\<rparr>)"

definition os_listen :: "syscalls \<Rightarrow> int \<Rightarrow> os \<Rightarrow> bool \<times> os" where
  "os_listen sc fd w = os_status (sc_listen sc (os_calls w) fd) w"

definition os_select :: "syscalls \<Rightarrow> int \<Rightarrow> os \<Rightarrow> int \<times> os" where
  "os_select sc fd w = (sc_select sc (os_calls w) fd, os_tick w)"

definition os_so_error :: "syscalls \<Rightarrow> int \<Rightarrow> os \<Rightarrow> bool \<times> os" where
  "os_so_error sc fd w = (sc_so_error sc (os_calls w) fd, os_tick w)"

definition os_stat :: "syscalls \<Rightarrow> string \<Rightarrow> os \<Rightarrow> file_kind \<times> os" where
  "os_stat sc p w = (case sc_stat sc (os_calls w) p of
       No_file \<Rightarrow> (No_file, os_tick w\<lparr>os_errno := ENOENT\<rparr>)
     | Stat_failed e \<Rightarrow> (Stat_failed e, os_tick w\<lparr>os_errno := EOTHER e\<rparr>)
     | k \<Rightarrow> (k, os_tick w))"

text \<open>\<^verbatim>\<open>send\<close>: the kernel takes a prefix of the data, or the call fails.\<close>

definition os_send :: "syscalls \<Rightarrow> int \<Rightarrow> bytes \<Rightarrow> os \<Rightarrow> int \<times> os" where
  "os_send sc fd data w = (case sc_send sc (os_calls w) fd (length data) of
       Inl e \<Rightarrow> (-1, os_tick w\<lparr>os_errno := e\<rparr>)
     | Inr k \<Rightarrow> (int k, os_tick w\<lparr>os_sent := os_sent w @ [(fd, take k data)]\<rparr>))"

definition os_recv :: "syscalls \<Rightarrow> int \<Rightarrow> nat \<Rightarrow> os \<Rightarrow> int \<times> bytes \<times> os" where
  "os_recv sc fd sz w = (case sc_recv sc (os_calls w) fd sz of
       Inl e \<Rightarrow> (-1, [], os_tick w\<lparr>os_errno := e\<rparr>)
     | Inr bs \<Rightarrow> (int (length bs), bs, os_tick w))"

text \<open>\<^verbatim>\<open>poll\<close> on one descriptor: \<open>-1\<close> on error, \<open>0\<close> on timeout, \<open>1\<close> when ready.\<close>

definition os_poll :: "syscalls \<Rightarrow> int \<Rightarrow> nat \<Rightarrow> os \<Rightarrow> int \<times> os" where
  "os_poll sc fd ms w = (case sc_poll sc (os_calls w) fd ms of
       Inl e \<Rightarrow> (-1, os_tick w\<lparr>os_errno := e, os_waited := os_waited w + ms\<rparr>)
     | Inr ready \<Rightarrow> (if ready then 1 else 0, os_tick w\<lparr>os_waited := os_waited w + ms\<rparr>))"

text \<open>\<^verbatim>\<open>clock_gettime(CLOCK_MONOTONIC)\<close>: seconds and nanoseconds.\<close>

definition os_clock :: "syscalls \<Rightarrow> os \<Rightarrow> (int \<times> int) \<times> os" where
  "os_clock sc w = (sc_clock sc (os_calls w), os_tick w)"

text \<open>\<^verbatim>\<open>pselect\<close> on a set of descriptors to read from: the number of ready ones and which they are.\<close>

definition os_pselect :: "syscalls \<Rightarrow> int list \<Rightarrow> (int \<times> int) option \<Rightarrow> os \<Rightarrow> int \<times> int list \<times> os" where
  "os_pselect sc fds timeout w = (case sc_pselect sc (os_calls w) fds timeout of
       Inl e \<Rightarrow> (-1, fds, os_tick w\<lparr>os_errno := e\<rparr>)
     | Inr ready \<Rightarrow> (int (length ready), ready, os_tick w))"

text \<open>The loop \<^verbatim>\<open>do { ... } while (cnt < 0 && errno == EINTR)\<close> around it, which ends only if some
  call is not interrupted.\<close>

partial_function (option) pselect_retry ::
  "syscalls \<Rightarrow> int list \<Rightarrow> (int \<times> int) option \<Rightarrow> os \<Rightarrow> (int \<times> int list \<times> os) option" where
  "pselect_retry sc fds timeout w = (case os_pselect sc fds timeout w of (cnt, ready, w') \<Rightarrow>
     if cnt < 0 \<and> os_errno w' = EINTR then pselect_retry sc fds timeout w'
     else Some (cnt, ready, w'))"

declare pselect_retry.simps [code]

text \<open>What POSIX documents of the calls.\<close>

definition syscalls_ok :: "syscalls \<Rightarrow> bool" where
  "syscalls_ok sc \<longleftrightarrow>
     (\<forall>n fd len k. sc_send sc n fd len = Inr k \<longrightarrow> k \<le> len) \<and>
     (\<forall>n fd sz bs. sc_recv sc n fd sz = Inr bs \<longrightarrow> length bs \<le> sz) \<and>
     (\<forall>n os fd. sc_socket sc n os = Inr fd \<longrightarrow> 0 \<le> fd \<and> fd \<notin> set os) \<and>
     (\<forall>n os l fd. sc_accept sc n os l = Inr fd \<longrightarrow> 0 \<le> fd \<and> fd \<notin> set os) \<and>
     (\<forall>n fds t ready. sc_pselect sc n fds t = Inr ready \<longrightarrow> set ready \<subseteq> set fds)"

text \<open>Signals do not interrupt every call for ever.\<close>

definition not_always_interrupted :: "syscalls \<Rightarrow> bool" where
  "not_always_interrupted sc \<longleftrightarrow> (\<forall>n fds t. \<exists>m \<ge> n. sc_pselect sc m fds t \<noteq> Inl EINTR)"

text \<open>The bytes the kernel has accepted for one descriptor.\<close>

definition sent_on :: "int \<Rightarrow> os \<Rightarrow> bytes" where
  "sent_on fd w = concat (map snd (filter (\<lambda>p. fst p = fd) (os_sent w)))"

section \<open>Event pair\<close>

definition ipc_event_pair_signal :: "nat \<Rightarrow> nat" where
  "ipc_event_pair_signal c = (if c < 2 ^ 64 - 2 then Suc c else c)"

definition ipc_event_pair_drain :: "nat \<Rightarrow> nat" where
  "ipc_event_pair_drain c = 0"

section \<open>Lemmas\<close>

lemma os_tick_simps [simp]:
  "os_errno (os_tick w) = os_errno w" "os_open (os_tick w) = os_open w"
  "os_sent (os_tick w) = os_sent w" "os_nonblock (os_tick w) = os_nonblock w"
  "os_bound (os_tick w) = os_bound w" "os_peer (os_tick w) = os_peer w"
  "os_unlinked (os_tick w) = os_unlinked w" "os_waited (os_tick w) = os_waited w" "os_calls (os_tick w) = Suc (os_calls w)"
  by (simp_all add: os_tick_def)

lemma sent_on_cong: "os_sent w = os_sent w' \<Longrightarrow> sent_on fd w = sent_on fd w'"
  by (simp add: sent_on_def)

lemma os_send_sent_on:
  "os_send sc fd data w = (r, w') \<Longrightarrow> sent_on g w' =
     (if g = fd \<and> 0 \<le> r then sent_on g w @ take (nat r) data else sent_on g w)"
  by (auto simp: os_send_def sent_on_def split: sum.splits)

lemma os_send_bound:
  assumes "syscalls_ok sc" "os_send sc fd data w = (r, w')"
  shows "r \<le> int (length data)"
proof -
  have "\<And>n k. sc_send sc n fd (length data) = Inr k \<Longrightarrow> k \<le> length data"
    using assms(1) by (auto simp: syscalls_ok_def)
  then show ?thesis
    using assms(2) by (fastforce simp: os_send_def split: sum.splits)
qed

lemma os_poll_sent_on [simp]: "os_poll sc fd ms w = (r, w') \<Longrightarrow> sent_on g w' = sent_on g w"
  by (auto simp: os_poll_def sent_on_def split: sum.splits)

lemma event_pair_signal_pos: "0 < ipc_event_pair_signal c"
  by (simp add: ipc_event_pair_signal_def)

lemma os_poll_waited: "os_poll sc fd ms w = (r, w') \<Longrightarrow> os_waited w' = os_waited w + ms"
  by (auto simp: os_poll_def split: sum.splits)

lemma os_send_waited: "os_send sc fd data w = (r, w') \<Longrightarrow> os_waited w' = os_waited w"
  by (auto simp: os_send_def split: sum.splits)

text \<open>Calls that only use up a call number or set \<^verbatim>\<open>errno\<close>.\<close>

definition same_io :: "os \<Rightarrow> os \<Rightarrow> bool" where
  "same_io w w' \<longleftrightarrow> os_open w' = os_open w \<and> os_nonblock w' = os_nonblock w \<and> os_sent w' = os_sent w \<and>
     os_bound w' = os_bound w \<and> os_peer w' = os_peer w \<and> os_unlinked w' = os_unlinked w"

lemma same_io_refl [simp]: "same_io w w"
  by (simp add: same_io_def)

lemma same_io_trans [trans]: "same_io w w' \<Longrightarrow> same_io w' w'' \<Longrightarrow> same_io w w''"
  by (simp add: same_io_def)

lemma same_io_tick [simp]: "same_io w (os_tick w') = same_io w w'"
  by (simp add: same_io_def)

lemma same_io_errno [simp]: "same_io w (w'\<lparr>os_errno := e\<rparr>) = same_io w w'"
  by (simp add: same_io_def)

lemma os_calloc_same_io: "os_calloc sc w = (b, w') \<Longrightarrow> same_io w w'"
  by (auto simp: os_calloc_def)

lemma os_clock_same_io: "os_clock sc w = (t, w') \<Longrightarrow> same_io w w'"
  by (auto simp: os_clock_def)

lemma os_pselect_same_io: "os_pselect sc fds t w = (c, r, w') \<Longrightarrow> same_io w w'"
  by (auto simp: os_pselect_def split: sum.splits)

text \<open>The loop around \<^verbatim>\<open>pselect\<close>: it returns when some call is not interrupted, and then what it
  returns is the answer of that call.\<close>

lemma pselect_retry_result:
  assumes "pselect_retry sc fds t w = Some (c, r, w')"
  shows "same_io w w' \<and> \<not> (c < 0 \<and> os_errno w' = EINTR) \<and>
    (\<exists>w1. same_io w w1 \<and> os_pselect sc fds t w1 = (c, r, w'))"
proof -
  have "case y of (c, r, w') \<Rightarrow> same_io w w' \<and> \<not> (c < 0 \<and> os_errno w' = EINTR) \<and>
      (\<exists>w1. same_io w w1 \<and> os_pselect sc fds t w1 = (c, r, w'))"
    if "pselect_retry sc fds t w = Some y" for y
  proof (rule pselect_retry.raw_induct [OF _ that])
    fix f sc fds t w y
    assume ih: "\<And>sc fds t w y. f sc fds t w = Some y \<Longrightarrow>
        case y of (c, r, w') \<Rightarrow> same_io w w' \<and> \<not> (c < 0 \<and> os_errno w' = EINTR) \<and>
          (\<exists>w1. same_io w w1 \<and> os_pselect sc fds t w1 = (c, r, w'))"
      and f: "(case os_pselect sc fds t w of (cnt, ready, w') \<Rightarrow>
          if cnt < 0 \<and> os_errno w' = EINTR then f sc fds t w' else Some (cnt, ready, w')) = Some y"
    obtain c r w1 where p: "os_pselect sc fds t w = (c, r, w1)" by (metis prod_cases3)
    show "case y of (c, r, w') \<Rightarrow> same_io w w' \<and> \<not> (c < 0 \<and> os_errno w' = EINTR) \<and>
          (\<exists>w1. same_io w w1 \<and> os_pselect sc fds t w1 = (c, r, w'))"
    proof (cases "c < 0 \<and> os_errno w1 = EINTR")
      case True
      with f p have "f sc fds t w1 = Some y" by simp
      from ih [OF this] os_pselect_same_io [OF p] show ?thesis
        by (auto intro: same_io_trans)
    next
      case False
      with f p have "y = (c, r, w1)" by simp
      with False p os_pselect_same_io [OF p] show ?thesis
        by (auto intro!: exI [of _ w])
    qed
  qed
  from this [OF assms] show ?thesis by simp
qed

lemma pselect_retry_returns:
  assumes "not_always_interrupted sc"
  shows "\<exists>y. pselect_retry sc fds t w = Some y"
proof -
  obtain m where m: "os_calls w \<le> m" "sc_pselect sc m fds t \<noteq> Inl EINTR"
    using assms unfolding not_always_interrupted_def by blast
  then show ?thesis
  proof (induction "m - os_calls w" arbitrary: w)
    case 0
    then have "os_calls w = m" by simp
    with 0 show ?case
      by (auto simp: pselect_retry.simps [of sc fds t w] os_pselect_def split: sum.splits)
  next
    case (Suc k)
    obtain c r w1 where p: "os_pselect sc fds t w = (c, r, w1)" by (metis prod_cases3)
    then have "os_calls w1 = Suc (os_calls w)" by (auto simp: os_pselect_def split: sum.splits)
    with Suc have "\<exists>y. pselect_retry sc fds t w1 = Some y" by simp
    with p show ?case by (auto simp: pselect_retry.simps [of sc fds t w])
  qed
qed

section \<open>A system on which every call succeeds\<close>

definition fresh_fd :: "int list \<Rightarrow> int" where
  "fresh_fd fds = fold max fds 2 + 1"

definition sc_ideal :: syscalls where
  "sc_ideal = \<lparr>sc_calloc = (\<lambda>n. True), sc_socket = (\<lambda>n fds. Inr (fresh_fd fds)),
     sc_connect = (\<lambda>n fd. None), sc_select = (\<lambda>n fd. 1), sc_so_error = (\<lambda>n fd. False),
     sc_bind = (\<lambda>n fd. None), sc_listen = (\<lambda>n fd. None),
     sc_accept = (\<lambda>n fds fd. Inr (fresh_fd fds)), sc_peer = (\<lambda>n fd. Sockaddr_un []),
     sc_send = (\<lambda>n fd len. Inr len),
     sc_recv = (\<lambda>n fd sz. Inr []), sc_poll = (\<lambda>n fd ms. Inr True), sc_stat = (\<lambda>n p. No_file),
     sc_clock = (\<lambda>n. (int n, 0)), sc_pselect = (\<lambda>n fds t. Inr fds)\<rparr>"

lemma fold_max_ge: "a \<le> fold max xs (a :: int) \<and> (\<forall>x \<in> set xs. x \<le> fold max xs a)"
proof (induction xs arbitrary: a)
  case (Cons x xs)
  from Cons [of "max x a"] show ?case by auto
qed simp

lemma fresh_fd: "0 \<le> fresh_fd fds" "fresh_fd fds \<notin> set fds"
proof -
  have "2 \<le> fold max fds (2 :: int)" "\<forall>x \<in> set fds. x \<le> fold max fds 2"
    using fold_max_ge [of 2 fds] by blast+
  then show "0 \<le> fresh_fd fds" "fresh_fd fds \<notin> set fds"
    by (auto simp: fresh_fd_def)
qed

lemma sc_ideal_ok: "syscalls_ok sc_ideal"
  by (auto simp: syscalls_ok_def sc_ideal_def fresh_fd)

lemma sc_ideal_not_interrupted: "not_always_interrupted sc_ideal"
  by (auto simp: not_always_interrupted_def sc_ideal_def)

end
