(* ===== verification/Ssn_Transport.thy ===== *)
theory Ssn_Transport
  imports Ssn_Os
begin

text \<open>
  The transport adapters of \<^verbatim>\<open>transports/ssn_transport_unix.c\<close>, \<^verbatim>\<open>..._tcp.c\<close> and
  \<^verbatim>\<open>..._udp.c\<close>: creation, \<^verbatim>\<open>bind\<close>, \<^verbatim>\<open>connect\<close>, \<^verbatim>\<open>disconnect\<close>, \<^verbatim>\<open>send\<close>, \<^verbatim>\<open>recv\<close>,
  \<^verbatim>\<open>listen\<close>, \<^verbatim>\<open>get_option\<close>, \<^verbatim>\<open>get_address\<close>, \<^verbatim>\<open>destroy\<close>. \<^verbatim>\<open>accept\<close> calls the factory and is in
  \<open>Ssn_Transport_Factory\<close>.

  The three implementation structs are one record with the union of their fields, and the table of
  function pointers is the name of the adapter it belongs to. Copies of a \<^verbatim>\<open>sockaddr\<close> keep the
  union as it is. Time stamps (\<^verbatim>\<open>last_activity\<close>, never read), the latency and loss counters (never
  written) and the socket options are left out.

  The descriptor laws that all adapters share are the locale \<open>fd_owner\<close>, interpreted on each.
\<close>

section \<open>Data\<close>

record ssn_transport_config =
  cfg_type :: ssn_transport_type
  cfg_non_blocking :: bool
  send_timeout_ms :: int
  recv_timeout_ms :: int
  connect_timeout_ms :: int
  enable_keepalive :: bool
  keepalive_idle_sec :: int
  keepalive_interval_sec :: int
  keepalive_count :: int
  enable_nagle :: bool
  send_buffer_size :: int
  recv_buffer_size :: int
  reuse_address :: bool

record ssn_transport_stats =
  bytes_sent :: u64
  bytes_received :: u64
  packets_sent :: u32
  packets_received :: u32
  send_errors :: u32
  recv_errors :: u32
  connection_count :: u32

datatype transport_ops = Unix_ops | Tcp_ops | Udp_ops

record transport_impl =
  sock_fd :: int
  impl_addr :: sockaddr
  impl_addr6 :: sockaddr
  is_server :: bool
  impl_non_blocking :: bool
  ipv6_enabled :: bool
  socket_path :: string

record ssn_transport =
  tr_type :: ssn_transport_type
  tr_ops :: transport_ops
  tr_impl :: transport_impl
  tr_config :: ssn_transport_config
  tr_stats :: ssn_transport_stats
  tr_valid :: bool

abbreviation tr_fd :: "ssn_transport \<Rightarrow> int" where
  "tr_fd t \<equiv> sock_fd (tr_impl t)"

abbreviation set_fd :: "int \<Rightarrow> ssn_transport \<Rightarrow> ssn_transport" where
  "set_fd fd t \<equiv> t\<lparr>tr_impl := (tr_impl t)\<lparr>sock_fd := fd\<rparr>\<rparr>"

abbreviation set_stats :: "(ssn_transport_stats \<Rightarrow> ssn_transport_stats) \<Rightarrow> ssn_transport \<Rightarrow> ssn_transport" where
  "set_stats f t \<equiv> t\<lparr>tr_stats := f (tr_stats t)\<rparr>"

definition zero_config :: ssn_transport_config where
  "zero_config = \<lparr>cfg_type = SSN_TRANSPORT_UNIX, cfg_non_blocking = False, send_timeout_ms = 0,
     recv_timeout_ms = 0, connect_timeout_ms = 0, enable_keepalive = False, keepalive_idle_sec = 0,
     keepalive_interval_sec = 0, keepalive_count = 0, enable_nagle = False, send_buffer_size = 0,
     recv_buffer_size = 0, reuse_address = False\<rparr>"

definition zero_stats :: ssn_transport_stats where
  "zero_stats = \<lparr>bytes_sent = 0, bytes_received = 0, packets_sent = 0, packets_received = 0,
     send_errors = 0, recv_errors = 0, connection_count = 0\<rparr>"

definition zero_impl :: "sockaddr \<Rightarrow> transport_impl" where
  "zero_impl a = \<lparr>sock_fd = 0, impl_addr = a, impl_addr6 = Sockaddr_in6 0 0, is_server = False,
     impl_non_blocking = False, ipv6_enabled = False, socket_path = []\<rparr>"

text \<open>\<^verbatim>\<open>sun_path\<close> of the address union.\<close>

definition sun_path :: "sockaddr \<Rightarrow> string" where
  "sun_path a = (case a of Sockaddr_un p \<Rightarrow> p | _ \<Rightarrow> [])"

section \<open>Creation and destruction\<close>

text \<open>\<^verbatim>\<open>unix_transport_create\<close>, \<^verbatim>\<open>tcp_transport_create\<close>, \<^verbatim>\<open>udp_transport_create\<close>: two
  allocations, a socket, and the fields in the order the code has them. A missing configuration
  leaves \<^verbatim>\<open>transport->config\<close> zeroed.\<close>

definition transport_create ::
  "syscalls \<Rightarrow> transport_ops \<Rightarrow> ssn_transport_type \<Rightarrow> sockaddr \<Rightarrow> bool \<Rightarrow>
   ssn_transport_config option \<Rightarrow> os \<Rightarrow> ssn_transport option \<times> os" where
  "transport_create sc ops ty a v6 config w = (case os_calloc sc w of
       (False, w) \<Rightarrow> (None, w)
     | (True, w) \<Rightarrow> (case os_calloc sc w of
         (False, w) \<Rightarrow> (None, w)
       | (True, w) \<Rightarrow> (case os_socket sc w of (fd, w) \<Rightarrow>
           if fd < 0 then (None, w)
           else
             let impl = (zero_impl a)\<lparr>sock_fd := fd, is_server := False,
                   impl_non_blocking := (case config of None \<Rightarrow> False | Some c \<Rightarrow> cfg_non_blocking c),
                   ipv6_enabled := v6, socket_path := []\<rparr>
             in (Some \<lparr>tr_type = ty, tr_ops = ops, tr_impl = impl,
                       tr_config = (case config of None \<Rightarrow> zero_config | Some c \<Rightarrow> c),
                       tr_stats = zero_stats, tr_valid = True\<rparr>, w))))"

definition unix_transport_create ::
  "syscalls \<Rightarrow> ssn_transport_config option \<Rightarrow> os \<Rightarrow> ssn_transport option \<times> os" where
  "unix_transport_create sc config w =
     transport_create sc Unix_ops SSN_TRANSPORT_UNIX (Sockaddr_un []) False config w"

definition tcp_transport_create ::
  "syscalls \<Rightarrow> ssn_transport_config option \<Rightarrow> bool \<Rightarrow> os \<Rightarrow> ssn_transport option \<times> os" where
  "tcp_transport_create sc config v6 w =
     transport_create sc Tcp_ops (if v6 then SSN_TRANSPORT_TCP6 else SSN_TRANSPORT_TCP)
       (Sockaddr_in 0 0) v6 config w"

definition udp_transport_create ::
  "syscalls \<Rightarrow> ssn_transport_config option \<Rightarrow> bool \<Rightarrow> os \<Rightarrow> ssn_transport option \<times> os" where
  "udp_transport_create sc config v6 w =
     transport_create sc Udp_ops (if v6 then SSN_TRANSPORT_UDP6 else SSN_TRANSPORT_UDP)
       (Sockaddr_in 0 0) v6 config w"

definition close_fd :: "ssn_transport \<Rightarrow> os \<Rightarrow> ssn_transport \<times> os" where
  "close_fd t w = (if tr_fd t \<ge> 0 then (set_fd (-1) t, os_close (tr_fd t) w) else (t, w))"

definition unix_transport_destroy :: "ssn_transport \<Rightarrow> os \<Rightarrow> os" where
  "unix_transport_destroy t w = (case close_fd t w of (t, w) \<Rightarrow>
     if is_server (tr_impl t) \<and> socket_path (tr_impl t) \<noteq> [] then os_unlink (socket_path (tr_impl t)) w
     else w)"

definition tcp_transport_destroy :: "ssn_transport \<Rightarrow> os \<Rightarrow> os" where
  "tcp_transport_destroy t w = snd (close_fd t w)"

definition udp_transport_destroy :: "ssn_transport \<Rightarrow> os \<Rightarrow> os" where
  "udp_transport_destroy t w = snd (close_fd t w)"

section \<open>Bind, connect, disconnect\<close>

definition unix_transport_bind :: "ssn_transport \<Rightarrow> ssn_address \<Rightarrow> ssn_transport" where
  "unix_transport_bind t a = t\<lparr>tr_impl := (tr_impl t)\<lparr>impl_addr := addr_sock a,
     socket_path := take 107 (sun_path (addr_sock a))\<rparr>\<rparr>"

text \<open>\<^verbatim>\<open>tcp_transport_bind\<close> and \<^verbatim>\<open>udp_transport_bind\<close> differ in the type that means IPv6.\<close>

definition inet_bind :: "ssn_transport_type \<Rightarrow> ssn_transport \<Rightarrow> ssn_address \<Rightarrow> ssn_transport" where
  "inet_bind ty6 t a =
     (if addr_type a = ty6
      then t\<lparr>tr_impl := (tr_impl t)\<lparr>ipv6_enabled := True, impl_addr6 := addr_sock a\<rparr>\<rparr>
      else t\<lparr>tr_impl := (tr_impl t)\<lparr>ipv6_enabled := False, impl_addr := addr_sock a\<rparr>\<rparr>)"

definition tcp_transport_bind :: "ssn_transport \<Rightarrow> ssn_address \<Rightarrow> ssn_transport" where
  "tcp_transport_bind t a = inet_bind SSN_TRANSPORT_TCP6 t a"

definition udp_transport_bind :: "ssn_transport \<Rightarrow> ssn_address \<Rightarrow> ssn_transport" where
  "udp_transport_bind t a = inet_bind SSN_TRANSPORT_UDP6 t a"

text \<open>Closing the descriptor made at creation and opening a new one.\<close>

definition renew_fd :: "syscalls \<Rightarrow> ssn_transport \<Rightarrow> os \<Rightarrow> ssn_transport \<times> os" where
  "renew_fd sc t w = (case close_fd t w of (t, w) \<Rightarrow>
     (case os_socket sc w of (fd, w) \<Rightarrow> (set_fd fd t, w)))"

definition apply_nonblock :: "ssn_transport \<Rightarrow> os \<Rightarrow> os" where
  "apply_nonblock t w = (if impl_non_blocking (tr_impl t) then os_set_nonblock (tr_fd t) w else w)"

definition fail_connect :: "ssn_transport \<Rightarrow> os \<Rightarrow> bool \<times> ssn_transport \<times> os" where
  "fail_connect t w = (False, set_fd (-1) t, os_close (tr_fd t) w)"

text \<open>\<^verbatim>\<open>connect\<close> on a socket in non-blocking mode may be in progress; with a timeout the code
  waits for it. The tcp adapter then reads \<^verbatim>\<open>SO_ERROR\<close>, the unix adapter does not.\<close>

definition finish_connect ::
  "syscalls \<Rightarrow> (ssn_transport \<Rightarrow> os \<Rightarrow> bool \<times> ssn_transport \<times> os) \<Rightarrow> ssn_transport \<Rightarrow> ssn_transport \<Rightarrow>
   sockaddr \<Rightarrow> int \<Rightarrow> os \<Rightarrow> bool \<times> ssn_transport \<times> os" where
  "finish_connect sc check t ready peer timeout_ms w = (case os_connect sc (tr_fd t) peer w of
       (True, w) \<Rightarrow> (True, ready, w)
     | (False, w) \<Rightarrow>
         if os_errno w \<noteq> EINPROGRESS then fail_connect t w
         else if timeout_ms > 0 then
           (case os_select sc (tr_fd t) w of (ret, w) \<Rightarrow>
              if ret \<le> 0 then fail_connect t w else check t w)
         else check t w)"

definition unix_connected :: "ssn_address \<Rightarrow> ssn_transport \<Rightarrow> ssn_transport" where
  "unix_connected a t = t\<lparr>tr_impl := (tr_impl t)\<lparr>is_server := False,
     socket_path := take 107 (sun_path (addr_sock a))\<rparr>\<rparr>"

definition unix_transport_connect ::
  "syscalls \<Rightarrow> ssn_transport \<Rightarrow> ssn_address \<Rightarrow> int \<Rightarrow> os \<Rightarrow> bool \<times> ssn_transport \<times> os" where
  "unix_transport_connect sc t a timeout_ms w = (case renew_fd sc t w of (t, w) \<Rightarrow>
     if tr_fd t < 0 then (False, t, w)
     else
       let w = apply_nonblock t w;
           t = t\<lparr>tr_impl := (tr_impl t)\<lparr>impl_addr := addr_sock a\<rparr>\<rparr>
       in finish_connect sc (\<lambda>t w. (True, unix_connected a t, w)) t (unix_connected a t)
            (impl_addr (tr_impl t)) timeout_ms w)"

definition tcp_connected :: "ssn_transport \<Rightarrow> ssn_transport" where
  "tcp_connected t = set_stats (\<lambda>s. s\<lparr>connection_count := connection_count s + 1\<rparr>)
     (t\<lparr>tr_impl := (tr_impl t)\<lparr>is_server := False\<rparr>\<rparr>)"

definition tcp_check_error :: "syscalls \<Rightarrow> ssn_transport \<Rightarrow> os \<Rightarrow> bool \<times> ssn_transport \<times> os" where
  "tcp_check_error sc t w = (case os_so_error sc (tr_fd t) w of (err, w) \<Rightarrow>
     if err then fail_connect t w else (True, tcp_connected t, w))"

definition store_peer :: "bool \<Rightarrow> ssn_address \<Rightarrow> ssn_transport \<Rightarrow> ssn_transport" where
  "store_peer v6 a t =
     (if v6 then t\<lparr>tr_impl := (tr_impl t)\<lparr>impl_addr6 := addr_sock a\<rparr>\<rparr>
      else t\<lparr>tr_impl := (tr_impl t)\<lparr>impl_addr := addr_sock a\<rparr>\<rparr>)"

definition tcp_transport_connect ::
  "syscalls \<Rightarrow> ssn_transport \<Rightarrow> ssn_address \<Rightarrow> int \<Rightarrow> os \<Rightarrow> bool \<times> ssn_transport \<times> os" where
  "tcp_transport_connect sc t a timeout_ms w =
     (let v6 = (addr_type a = SSN_TRANSPORT_TCP6);
          t = t\<lparr>tr_impl := (tr_impl t)\<lparr>ipv6_enabled := v6\<rparr>\<rparr>
      in case renew_fd sc t w of (t, w) \<Rightarrow>
        if tr_fd t < 0 then (False, t, w)
        else
          let w = apply_nonblock t w;
              t = store_peer v6 a t;
              peer = (if v6 then impl_addr6 (tr_impl t) else impl_addr (tr_impl t))
          in finish_connect sc (tcp_check_error sc) t (tcp_connected t) peer timeout_ms w)"

text \<open>\<^verbatim>\<open>udp_transport_connect\<close> makes no \<^verbatim>\<open>connect\<close> call: it stores the peer for \<^verbatim>\<open>sendto\<close>.\<close>

definition udp_transport_connect ::
  "syscalls \<Rightarrow> ssn_transport \<Rightarrow> ssn_address \<Rightarrow> int \<Rightarrow> os \<Rightarrow> bool \<times> ssn_transport \<times> os" where
  "udp_transport_connect sc t a timeout_ms w =
     (let v6 = (addr_type a = SSN_TRANSPORT_UDP6);
          t = t\<lparr>tr_impl := (tr_impl t)\<lparr>ipv6_enabled := v6\<rparr>\<rparr>
      in case renew_fd sc t w of (t, w) \<Rightarrow>
        if tr_fd t < 0 then (False, t, w)
        else
          let w = apply_nonblock t w;
              t = store_peer v6 a t
          in (True, tcp_connected t, w))"

text \<open>The unix and tcp adapters call \<^verbatim>\<open>shutdown\<close> before \<^verbatim>\<open>close\<close>, which ends the connection on
  both sides and has no result that is used.\<close>

definition unix_transport_disconnect :: "ssn_transport \<Rightarrow> os \<Rightarrow> bool \<times> ssn_transport \<times> os" where
  "unix_transport_disconnect t w = (True, close_fd t w)"

definition tcp_transport_disconnect :: "ssn_transport \<Rightarrow> os \<Rightarrow> bool \<times> ssn_transport \<times> os" where
  "tcp_transport_disconnect t w = (True, close_fd t w)"

definition udp_transport_disconnect :: "ssn_transport \<Rightarrow> os \<Rightarrow> bool \<times> ssn_transport \<times> os" where
  "udp_transport_disconnect t w = (True, close_fd t w)"

definition transport_fd_open :: "ssn_transport \<Rightarrow> bool" where
  "transport_fd_open t \<longleftrightarrow> tr_fd t \<ge> 0"

section \<open>Transfer\<close>

text \<open>\<^verbatim>\<open>unix_transport_send\<close> and \<^verbatim>\<open>tcp_transport_send\<close>; \<^verbatim>\<open>udp_transport_send\<close> rejects data
  longer than a datagram first, and does so without setting \<^verbatim>\<open>errno\<close>.\<close>

definition stream_send :: "syscalls \<Rightarrow> ssn_transport \<Rightarrow> bytes \<Rightarrow> os \<Rightarrow> int \<times> ssn_transport \<times> os" where
  "stream_send sc t data w =
     (if \<not> tr_valid t \<or> tr_fd t < 0 then (-1, t, w)
      else case os_send sc (tr_fd t) data w of (sent, w) \<Rightarrow>
        if sent < 0 then
          (if os_errno w = EAGAIN then (-1, t, w)
           else (-1, set_stats (\<lambda>s. s\<lparr>send_errors := send_errors s + 1\<rparr>) t, w))
        else (sent, set_stats (\<lambda>s. s\<lparr>bytes_sent := bytes_sent s + of_int sent,
                packets_sent := packets_sent s + 1\<rparr>) t, w))"

definition unix_transport_send :: "syscalls \<Rightarrow> ssn_transport \<Rightarrow> bytes \<Rightarrow> os \<Rightarrow> int \<times> ssn_transport \<times> os" where
  "unix_transport_send sc t data w = stream_send sc t data w"

definition tcp_transport_send :: "syscalls \<Rightarrow> ssn_transport \<Rightarrow> bytes \<Rightarrow> os \<Rightarrow> int \<times> ssn_transport \<times> os" where
  "tcp_transport_send sc t data w = stream_send sc t data w"

definition UDP_MAX_PACKET_SIZE :: nat where
  "UDP_MAX_PACKET_SIZE = 65507"

definition udp_transport_send :: "syscalls \<Rightarrow> ssn_transport \<Rightarrow> bytes \<Rightarrow> os \<Rightarrow> int \<times> ssn_transport \<times> os" where
  "udp_transport_send sc t data w =
     (if \<not> tr_valid t \<or> tr_fd t < 0 then (-1, t, w)
      else if length data > UDP_MAX_PACKET_SIZE then (-1, t, w)
      else stream_send sc t data w)"

text \<open>The three \<^verbatim>\<open>recv\<close> functions have the same steps; a receive timeout is a socket option.\<close>

definition stream_recv :: "syscalls \<Rightarrow> ssn_transport \<Rightarrow> nat \<Rightarrow> int \<Rightarrow> os \<Rightarrow> int \<times> bytes \<times> ssn_transport \<times> os" where
  "stream_recv sc t sz timeout_ms w =
     (if \<not> tr_valid t \<or> tr_fd t < 0 then (-1, [], t, w)
      else case os_recv sc (tr_fd t) sz w of (received, bs, w) \<Rightarrow>
        if received < 0 then
          (if os_errno w \<noteq> EAGAIN
           then (-1, [], set_stats (\<lambda>s. s\<lparr>recv_errors := recv_errors s + 1\<rparr>) t, w)
           else (-1, [], t, w))
        else if received > 0 then
          (received, bs, set_stats (\<lambda>s. s\<lparr>bytes_received := bytes_received s + of_int received,
             packets_received := packets_received s + 1\<rparr>) t, w)
        else (received, bs, t, w))"

definition unix_transport_recv :: "syscalls \<Rightarrow> ssn_transport \<Rightarrow> nat \<Rightarrow> int \<Rightarrow> os \<Rightarrow> int \<times> bytes \<times> ssn_transport \<times> os" where
  "unix_transport_recv sc t sz ms w = stream_recv sc t sz ms w"

definition tcp_transport_recv :: "syscalls \<Rightarrow> ssn_transport \<Rightarrow> nat \<Rightarrow> int \<Rightarrow> os \<Rightarrow> int \<times> bytes \<times> ssn_transport \<times> os" where
  "tcp_transport_recv sc t sz ms w = stream_recv sc t sz ms w"

definition udp_transport_recv :: "syscalls \<Rightarrow> ssn_transport \<Rightarrow> nat \<Rightarrow> int \<Rightarrow> os \<Rightarrow> int \<times> bytes \<times> ssn_transport \<times> os" where
  "udp_transport_recv sc t sz ms w = stream_recv sc t sz ms w"

section \<open>Listen\<close>

definition unix_transport_listen :: "syscalls \<Rightarrow> ssn_transport \<Rightarrow> os \<Rightarrow> bool \<times> ssn_transport \<times> os" where
  "unix_transport_listen sc t w = (case os_stat sc (socket_path (tr_impl t)) w of (kind, w) \<Rightarrow>
     if kind = Other_file then (False, t, w)
     else
       let w = (if kind = Socket_file then os_unlink (socket_path (tr_impl t)) w else w) in
       case os_bind sc (tr_fd t) (impl_addr (tr_impl t)) w of
         (False, w) \<Rightarrow> (False, t, w)
       | (True, w) \<Rightarrow> (case os_listen sc (tr_fd t) w of
           (False, w) \<Rightarrow> (False, t, w)
         | (True, w) \<Rightarrow> (True, t\<lparr>tr_impl := (tr_impl t)\<lparr>is_server := True\<rparr>\<rparr>, w)))"

definition local_addr :: "ssn_transport \<Rightarrow> sockaddr" where
  "local_addr t = (if ipv6_enabled (tr_impl t) then impl_addr6 (tr_impl t) else impl_addr (tr_impl t))"

definition tcp_transport_listen :: "syscalls \<Rightarrow> ssn_transport \<Rightarrow> os \<Rightarrow> bool \<times> ssn_transport \<times> os" where
  "tcp_transport_listen sc t w = (case os_bind sc (tr_fd t) (local_addr t) w of
       (False, w) \<Rightarrow> (False, t, w)
     | (True, w) \<Rightarrow> (case os_listen sc (tr_fd t) w of
         (False, w) \<Rightarrow> (False, t, w)
       | (True, w) \<Rightarrow> (True, t\<lparr>tr_impl := (tr_impl t)\<lparr>is_server := True\<rparr>\<rparr>, w)))"

definition udp_transport_listen :: "syscalls \<Rightarrow> ssn_transport \<Rightarrow> os \<Rightarrow> bool \<times> ssn_transport \<times> os" where
  "udp_transport_listen sc t w = (case os_bind sc (tr_fd t) (local_addr t) w of
       (False, w) \<Rightarrow> (False, t, w)
     | (True, w) \<Rightarrow> (True, t\<lparr>tr_impl := (tr_impl t)\<lparr>is_server := True\<rparr>\<rparr>, w))"

section \<open>Options and addresses\<close>

text \<open>\<^verbatim>\<open>get_option\<close> knows option 0, the descriptor; \<^verbatim>\<open>set_option\<close> knows none.\<close>

definition transport_get_option :: "ssn_transport \<Rightarrow> int \<Rightarrow> int option" where
  "transport_get_option t opt = (if opt = 0 then Some (tr_fd t) else None)"

definition transport_set_option :: "ssn_transport \<Rightarrow> int \<Rightarrow> bool" where
  "transport_set_option t opt = False"

definition ssn_transport_get_fd :: "ssn_transport option \<Rightarrow> int" where
  "ssn_transport_get_fd t = (case t of
       None \<Rightarrow> -1
     | Some t \<Rightarrow> if \<not> tr_valid t then -1
                 else case transport_get_option t 0 of None \<Rightarrow> -1 | Some fd \<Rightarrow> fd)"

definition unix_transport_get_address :: "ssn_transport \<Rightarrow> ssn_address" where
  "unix_transport_get_address t =
     \<lparr>addr_type = SSN_TRANSPORT_UNIX, addr_sock = impl_addr (tr_impl t),
      address_str = ''unix://'' @ socket_path (tr_impl t)\<rparr>"

definition inet_get_address ::
  "resolver \<Rightarrow> ssn_transport_type \<Rightarrow> ssn_transport_type \<Rightarrow> ssn_transport \<Rightarrow> ssn_address" where
  "inet_get_address res ty ty6 t =
     (let ty' = (if ipv6_enabled (tr_impl t) then ty6 else ty)
      in \<lparr>addr_type = ty', addr_sock = local_addr t,
          address_str = take (SSN_TRANSPORT_MAX_ADDRESS_LEN - 1)
            (sock_string res (ssn_transport_type_to_string ty') (local_addr t))\<rparr>)"

definition tcp_transport_get_address :: "resolver \<Rightarrow> ssn_transport \<Rightarrow> ssn_address" where
  "tcp_transport_get_address res t = inet_get_address res SSN_TRANSPORT_TCP SSN_TRANSPORT_TCP6 t"

definition udp_transport_get_address :: "resolver \<Rightarrow> ssn_transport \<Rightarrow> ssn_address" where
  "udp_transport_get_address res t = inet_get_address res SSN_TRANSPORT_UDP SSN_TRANSPORT_UDP6 t"


section \<open>Descriptors\<close>

definition fds :: "ssn_transport \<Rightarrow> int set" where
  "fds t = (if tr_fd t \<ge> 0 then {tr_fd t} else {})"

datatype transport_act = Act_connect ssn_address int | Act_disconnect

definition run_act ::
  "(syscalls \<Rightarrow> ssn_transport \<Rightarrow> ssn_address \<Rightarrow> int \<Rightarrow> os \<Rightarrow> bool \<times> ssn_transport \<times> os) \<Rightarrow>
   (ssn_transport \<Rightarrow> os \<Rightarrow> bool \<times> ssn_transport \<times> os) \<Rightarrow>
   syscalls \<Rightarrow> transport_act \<Rightarrow> ssn_transport \<times> os \<Rightarrow> ssn_transport \<times> os" where
  "run_act con dis sc a = (\<lambda>(t, w). case a of
       Act_connect ad ms \<Rightarrow> snd (con sc t ad ms w)
     | Act_disconnect \<Rightarrow> snd (dis t w))"

locale fd_owner =
  fixes tconnect :: "syscalls \<Rightarrow> ssn_transport \<Rightarrow> ssn_address \<Rightarrow> int \<Rightarrow> os \<Rightarrow> bool \<times> ssn_transport \<times> os"
    and tdisconnect :: "ssn_transport \<Rightarrow> os \<Rightarrow> bool \<times> ssn_transport \<times> os"
    and tdestroy :: "ssn_transport \<Rightarrow> os \<Rightarrow> os"
  assumes connect_fds: "syscalls_ok sc \<Longrightarrow> tconnect sc t a ms w = (ok, t', w') \<Longrightarrow>
      set (os_open w') = (set (os_open w) - fds t) \<union> fds t' \<and>
      fds t' \<inter> (set (os_open w) - fds t) = {} \<and> (ok \<longleftrightarrow> fds t' \<noteq> {})"
    and disconnect_fds: "tdisconnect t w = (ok, t', w') \<Longrightarrow>
      set (os_open w') = set (os_open w) - fds t \<and> fds t' = {}"
    and destroy_fds: "set (os_open (tdestroy t w)) = set (os_open w) - fds t"
begin

lemma act_keeps_others:
  assumes ok: "syscalls_ok sc" and act: "run_act tconnect tdisconnect sc a (t, w) = (t', w')"
  shows "set (os_open w') - fds t' = set (os_open w) - fds t"
proof (cases a)
  case (Act_connect ad ms)
  with act obtain r where "tconnect sc t ad ms w = (r, t', w')"
    by (cases "tconnect sc t ad ms w") (simp add: run_act_def)
  from connect_fds [OF ok this] show ?thesis by blast
next
  case Act_disconnect
  with act obtain r where "tdisconnect t w = (r, t', w')"
    by (cases "tdisconnect t w") (simp add: run_act_def)
  from disconnect_fds [OF this] show ?thesis by simp
qed

lemma acts_keep_others:
  assumes ok: "syscalls_ok sc"
  shows "fold (run_act tconnect tdisconnect sc) as (t, w) = (t', w') \<Longrightarrow> set (os_open w') - fds t' = set (os_open w) - fds t"
proof (induction as arbitrary: t w)
  case (Cons a as)
  obtain t1 w1 where a: "run_act tconnect tdisconnect sc a (t, w) = (t1, w1)" by fastforce
  with Cons have "set (os_open w') - fds t' = set (os_open w1) - fds t1" by simp
  with act_keeps_others [OF ok a] show ?case by simp
qed simp

lemma acts_then_destroy:
  "syscalls_ok sc \<Longrightarrow> fold (run_act tconnect tdisconnect sc) as (t, w) = (t', w') \<Longrightarrow>
   set (os_open (tdestroy t' w')) = set (os_open w) - fds t"
  by (simp add: destroy_fds acts_keep_others)

end

lemma close_fd_fds:
  "close_fd t w = (t', w') \<Longrightarrow> set (os_open w') = set (os_open w) - fds t \<and> fds t' = {}"
  by (auto simp: close_fd_def fds_def os_close_def split: if_splits)

lemma renew_fd_fds:
  assumes ok: "syscalls_ok sc" and r: "renew_fd sc t w = (t', w')"
  shows "set (os_open w') = (set (os_open w) - fds t) \<union> fds t'"
    "fds t' \<inter> (set (os_open w) - fds t) = {}"
proof -
  obtain t1 w1 where c: "close_fd t w = (t1, w1)" by fastforce
  have o1: "set (os_open w1) = set (os_open w) - fds t" using close_fd_fds [OF c] by simp
  have "0 \<le> fd \<and> fd \<notin> set (os_open w1)" if "sc_socket sc (os_calls w1) (os_open w1) = Inr fd" for fd
    using ok that unfolding syscalls_ok_def by blast
  then have "set (os_open w') = set (os_open w1) \<union> fds t' \<and> fds t' \<inter> set (os_open w1) = {}"
    using r c by (auto simp: renew_fd_def os_socket_def fds_def split: sum.splits)
  with o1 show "set (os_open w') = (set (os_open w) - fds t) \<union> fds t'"
    "fds t' \<inter> (set (os_open w) - fds t) = {}"
    by simp_all
qed

lemma apply_nonblock_open [simp]: "os_open (apply_nonblock t w) = os_open w"
  by (simp add: apply_nonblock_def os_set_nonblock_def)

lemma os_status_open: "os_status r w = (b, w') \<Longrightarrow> os_open w' = os_open w"
  by (auto simp: os_status_def split: option.splits)

lemma os_connect_open: "os_connect sc fd a w = (b, w') \<Longrightarrow> os_open w' = os_open w"
  by (auto simp: os_connect_def dest: os_status_open)

text \<open>Either the new descriptor is kept or it is closed.\<close>

definition connect_outcome :: "ssn_transport \<Rightarrow> os \<Rightarrow> bool \<times> ssn_transport \<times> os \<Rightarrow> bool" where
  "connect_outcome t w r = (case r of (ok, t', w') \<Rightarrow>
     if ok then 0 \<le> tr_fd t \<and> tr_fd t' = tr_fd t \<and> os_open w' = os_open w
     else if tr_fd t < 0 then t' = t \<and> w' = w
     else tr_fd t' = -1 \<and> os_open w' = removeAll (tr_fd t) (os_open w))"

lemma connect_outcome_fds:
  assumes ok: "syscalls_ok sc" and n: "renew_fd sc t w = (t1, w1)" and c: "connect_outcome t1 w1 (r, t', w')"
  shows "set (os_open w') = (set (os_open w) - fds t) \<union> fds t' \<and>
    fds t' \<inter> (set (os_open w) - fds t) = {} \<and> (r \<longleftrightarrow> fds t' \<noteq> {})"
proof -
  note f = renew_fd_fds [OF ok n]
  consider "r" "0 \<le> tr_fd t1" "tr_fd t' = tr_fd t1" "os_open w' = os_open w1"
    | "\<not> r" "tr_fd t1 < 0" "t' = t1" "w' = w1"
    | "\<not> r" "0 \<le> tr_fd t1" "tr_fd t' = -1" "os_open w' = removeAll (tr_fd t1) (os_open w1)"
    using c by (auto simp: connect_outcome_def split: if_splits)
  then show ?thesis
    using f by cases (auto simp: fds_def)
qed

lemma fail_connect_outcome:
  "os_open w2 = os_open w \<Longrightarrow> 0 \<le> tr_fd t \<Longrightarrow> tr_fd t2 = tr_fd t \<Longrightarrow> connect_outcome t w (fail_connect t2 w2)"
  by (simp add: connect_outcome_def fail_connect_def os_close_def)

lemma connect_outcome_update:
  "connect_outcome t2 w2 r \<Longrightarrow> 0 \<le> tr_fd t \<Longrightarrow> tr_fd t2 = tr_fd t \<Longrightarrow> os_open w2 = os_open w \<Longrightarrow> connect_outcome t w r"
  by (auto simp: connect_outcome_def split: if_splits)

lemma tcp_check_error_outcome: "0 \<le> tr_fd t \<Longrightarrow> connect_outcome t w (tcp_check_error sc t w)"
  by (simp add: tcp_check_error_def os_so_error_def connect_outcome_def fail_connect_def os_close_def
      tcp_connected_def)

lemma finish_connect_outcome:
  assumes fd: "0 \<le> tr_fd t" "tr_fd ready = tr_fd t"
    and check: "\<And>w. connect_outcome t w (check t w)"
  shows "connect_outcome t w (finish_connect sc check t ready peer ms w)"
proof -
  obtain b w2 where o: "os_connect sc (tr_fd t) peer w = (b, w2)" by fastforce
  note w2 = os_connect_open [OF o]
  have c: "connect_outcome t w (check t w2)" "connect_outcome t w (check t (os_tick w2))"
    "connect_outcome t w (fail_connect t w2)" "connect_outcome t w (fail_connect t (os_tick w2))"
    by (rule connect_outcome_update [OF check]; simp add: fd w2)+ (simp_all add: fd w2 fail_connect_outcome)
  show ?thesis
    using fd w2 c by (cases b) (simp_all add: finish_connect_def o os_select_def, simp add: connect_outcome_def)
qed

lemma unix_connect_fds:
  assumes ok: "syscalls_ok sc" and c: "unix_transport_connect sc t a ms w = (r, t', w')"
  shows "set (os_open w') = (set (os_open w) - fds t) \<union> fds t' \<and>
    fds t' \<inter> (set (os_open w) - fds t) = {} \<and> (r \<longleftrightarrow> fds t' \<noteq> {})"
proof -
  obtain t1 w1 where n: "renew_fd sc t w = (t1, w1)" by fastforce
  have "connect_outcome t1 w1 (unix_transport_connect sc t a ms w)"
  proof (cases "tr_fd t1 < 0")
    case True
    then show ?thesis by (simp add: unix_transport_connect_def n connect_outcome_def)
  next
    case False
    let ?t2 = "t1\<lparr>tr_impl := (tr_impl t1)\<lparr>impl_addr := addr_sock a\<rparr>\<rparr>"
    have "connect_outcome ?t2 (apply_nonblock t1 w1) (unix_transport_connect sc t a ms w)"
      unfolding unix_transport_connect_def n Let_def prod.case if_not_P [OF False]
      by (rule finish_connect_outcome) (use False in \<open>simp_all add: connect_outcome_def unix_connected_def\<close>)
    then show ?thesis by (rule connect_outcome_update) (use False in simp_all)
  qed
  then show ?thesis using connect_outcome_fds [OF ok n] c by simp
qed

lemma tcp_connect_fds:
  assumes ok: "syscalls_ok sc" and c: "tcp_transport_connect sc t a ms w = (r, t', w')"
  shows "set (os_open w') = (set (os_open w) - fds t) \<union> fds t' \<and>
    fds t' \<inter> (set (os_open w) - fds t) = {} \<and> (r \<longleftrightarrow> fds t' \<noteq> {})"
proof -
  let ?t = "t\<lparr>tr_impl := (tr_impl t)\<lparr>ipv6_enabled := addr_type a = SSN_TRANSPORT_TCP6\<rparr>\<rparr>"
  obtain t1 w1 where n: "renew_fd sc ?t w = (t1, w1)" by fastforce
  have "connect_outcome t1 w1 (tcp_transport_connect sc t a ms w)"
  proof (cases "tr_fd t1 < 0")
    case True
    then show ?thesis by (simp add: tcp_transport_connect_def n connect_outcome_def)
  next
    case False
    let ?t2 = "store_peer (addr_type a = SSN_TRANSPORT_TCP6) a t1"
    have fd: "tr_fd ?t2 = tr_fd t1" by (simp add: store_peer_def)
    have "connect_outcome ?t2 (apply_nonblock t1 w1) (tcp_transport_connect sc t a ms w)"
      unfolding tcp_transport_connect_def Let_def n prod.case if_not_P [OF False]
      by (rule finish_connect_outcome)
        (use False in \<open>simp_all add: fd tcp_connected_def tcp_check_error_outcome\<close>)
    then show ?thesis by (rule connect_outcome_update) (use False in \<open>simp_all add: fd\<close>)
  qed
  moreover have "fds ?t = fds t" by (simp add: fds_def)
  ultimately show ?thesis using connect_outcome_fds [OF ok n] c by simp
qed

lemma udp_connect_fds:
  assumes ok: "syscalls_ok sc" and c: "udp_transport_connect sc t a ms w = (r, t', w')"
  shows "set (os_open w') = (set (os_open w) - fds t) \<union> fds t' \<and>
    fds t' \<inter> (set (os_open w) - fds t) = {} \<and> (r \<longleftrightarrow> fds t' \<noteq> {})"
proof -
  let ?t = "t\<lparr>tr_impl := (tr_impl t)\<lparr>ipv6_enabled := addr_type a = SSN_TRANSPORT_UDP6\<rparr>\<rparr>"
  obtain t1 w1 where n: "renew_fd sc ?t w = (t1, w1)" by fastforce
  have "fds ?t = fds t" by (simp add: fds_def)
  note f = renew_fd_fds [OF ok n, unfolded this]
  show ?thesis
    using c f n
    by (auto simp: udp_transport_connect_def store_peer_def tcp_connected_def Let_def fds_def
        split: if_splits prod.splits)
qed

lemma unix_destroy_fds: "set (os_open (unix_transport_destroy t w)) = set (os_open w) - fds t"
  using close_fd_fds [of t w]
  by (cases "close_fd t w") (simp add: unix_transport_destroy_def os_unlink_def)

lemma inet_destroy_fds:
  "set (os_open (tcp_transport_destroy t w)) = set (os_open w) - fds t"
  "set (os_open (udp_transport_destroy t w)) = set (os_open w) - fds t"
  using close_fd_fds [of t w]
  by (cases "close_fd t w"; simp add: tcp_transport_destroy_def udp_transport_destroy_def)+

lemma disconnect_fds:
  "unix_transport_disconnect t w = (ok, t', w') \<Longrightarrow> set (os_open w') = set (os_open w) - fds t \<and> fds t' = {}"
  "tcp_transport_disconnect t w = (ok, t', w') \<Longrightarrow> set (os_open w') = set (os_open w) - fds t \<and> fds t' = {}"
  "udp_transport_disconnect t w = (ok, t', w') \<Longrightarrow> set (os_open w') = set (os_open w) - fds t \<and> fds t' = {}"
  using close_fd_fds [of t w t' w']
  by (simp_all add: unix_transport_disconnect_def tcp_transport_disconnect_def udp_transport_disconnect_def)

interpretation unix_tr: fd_owner unix_transport_connect unix_transport_disconnect unix_transport_destroy
  by unfold_locales (fact unix_connect_fds disconnect_fds unix_destroy_fds)+

interpretation tcp_tr: fd_owner tcp_transport_connect tcp_transport_disconnect tcp_transport_destroy
  by unfold_locales (fact tcp_connect_fds disconnect_fds inet_destroy_fds)+

interpretation udp_tr: fd_owner udp_transport_connect udp_transport_disconnect udp_transport_destroy
  by unfold_locales (fact udp_connect_fds disconnect_fds inet_destroy_fds)+

text \<open>A new transport owns exactly the descriptor that was opened for it.\<close>

lemma transport_create_fds:
  assumes ok: "syscalls_ok sc" and c: "transport_create sc ops ty a v6 config w = (r, w')"
  shows "case r of
      None \<Rightarrow> set (os_open w') = set (os_open w)
    | Some t \<Rightarrow> set (os_open w') = set (os_open w) \<union> fds t \<and> fds t \<noteq> {} \<and>
        fds t \<inter> set (os_open w) = {} \<and> tr_ops t = ops \<and> tr_valid t \<and> os_nonblock w' = os_nonblock w"
proof -
  have "0 \<le> fd \<and> fd \<notin> set fs" if "sc_socket sc n fs = Inr fd" for fd n fs
    using ok that unfolding syscalls_ok_def by blast
  then show ?thesis
    using c by (fastforce simp: transport_create_def os_calloc_def os_socket_def Let_def fds_def
        split: if_splits bool.splits sum.splits prod.splits)
qed

end
