(* ===== verification/Ssn_Hash_Table.thy ===== *)
theory Ssn_Hash_Table
  imports Ssn_Os "HOL-Library.Multiset"
begin

text \<open>
  The hash table of \<^verbatim>\<open>util/ssn_hash_table.c\<close>: chained buckets with integer keys
  (\<^verbatim>\<open>ssn_hash_table_set/get/remove\<close>) and string keys (\<^verbatim>\<open>..._str\<close>) in the same nodes.

  A bucket is the list of its nodes from the head. A C string is the list of its bytes before
  the NUL. A \<^verbatim>\<open>void *\<close> value is an option, \<open>None\<close> being \<^verbatim>\<open>NULL\<close>. \<^verbatim>\<open>malloc\<close> leaves a node
  uninitialised and \<^verbatim>\<open>ssn_hash_table_set\<close> does not write \<^verbatim>\<open>str_key\<close>: what the memory holds
  there is the argument \<open>junk\<close>. The load factor test on floats is exact below \<open>2 ^ 24\<close> entries
  and is written with integers.

  The interface that clients of the string keys rely on is the locale \<open>string_table\<close>,
  interpreted on the operations of this theory.
\<close>

section \<open>Model\<close>

record 'v hash_node =
  node_key :: u64
  str_key :: "bytes option"
  node_value :: "'v option"

record 'v ssn_hash_table =
  buckets :: "'v hash_node list list"
  capacity :: nat
  ht_size :: nat

text \<open>\<^verbatim>\<open>default_capacity\<close>: the doubling of a \<^verbatim>\<open>size_t\<close> wraps, so the loop may run forever.\<close>

partial_function (option) default_capacity_loop :: "u64 \<Rightarrow> u64 \<Rightarrow> u64 option" where
  "default_capacity_loop cap c = (if c < cap then default_capacity_loop cap (c * 2) else Some c)"

declare default_capacity_loop.simps [code]

definition default_capacity :: "u64 \<Rightarrow> u64 option" where
  "default_capacity cap = default_capacity_loop cap 16"

definition hash_uint32 :: "u32 \<Rightarrow> u32" where
  "hash_uint32 k =
     (let a = (drop_bit 16 k XOR k) * 0x45d9f3b;
          b = (drop_bit 16 a XOR a) * 0x45d9f3b
      in drop_bit 16 b XOR b)"

text \<open>\<^verbatim>\<open>char\<close> is signed: each byte is sign-extended before it is added.\<close>

definition hash_step :: "u32 \<Rightarrow> byte \<Rightarrow> u32" where
  "hash_step h c = (push_bit 5 h + h) + scast c"

definition ssn_hash_string :: "bytes option \<Rightarrow> u32" where
  "ssn_hash_string s = (case s of None \<Rightarrow> 0 | Some s \<Rightarrow> fold (\<lambda>c h. hash_step h c) s 5381)"

definition ssn_hash_table_create :: "syscalls \<Rightarrow> u64 \<Rightarrow> os \<Rightarrow> ('v ssn_hash_table option \<times> os) option" where
  "ssn_hash_table_create sc cap w = (case os_calloc sc w of
       (False, w) \<Rightarrow> Some (None, w)
     | (True, w) \<Rightarrow> (case default_capacity cap of
         None \<Rightarrow> None
       | Some c \<Rightarrow> (case os_calloc sc w of
           (False, w) \<Rightarrow> Some (None, w)
         | (True, w) \<Rightarrow>
             Some (Some \<lparr>buckets = replicate (unat c) [], capacity = unat c, ht_size = 0\<rparr>, w))))"

fun update_first :: "('a \<Rightarrow> bool) \<Rightarrow> ('a \<Rightarrow> 'a) \<Rightarrow> 'a list \<Rightarrow> 'a list" where
  "update_first P f [] = []"
| "update_first P f (n # ns) = (if P n then f n # ns else n # update_first P f ns)"

fun remove_first :: "('a \<Rightarrow> bool) \<Rightarrow> 'a list \<Rightarrow> 'a list" where
  "remove_first P [] = []"
| "remove_first P (n # ns) = (if P n then ns else n # remove_first P ns)"

text \<open>\<^verbatim>\<open>hash % capacity\<close>; the equation for execution avoids unary numbers.\<close>

definition hash_mod :: "u32 \<Rightarrow> nat \<Rightarrow> nat" where
  "hash_mod h cap = unat h mod cap"

lemma hash_mod_code [code]: "hash_mod h cap = nat (uint h mod int cap)"
  by (simp add: hash_mod_def nat_mod_distrib)

text \<open>The hash a node is filed under when the table grows.\<close>

definition node_hash :: "'v hash_node \<Rightarrow> u32" where
  "node_hash n = (case str_key n of
       Some s \<Rightarrow> ssn_hash_string (Some s)
     | None \<Rightarrow> hash_uint32 (ucast (node_key n)))"

definition rehash_node :: "nat \<Rightarrow> 'v hash_node \<Rightarrow> 'v hash_node list list \<Rightarrow> 'v hash_node list list" where
  "rehash_node new_capacity n bs =
     (let i = hash_mod (node_hash n) new_capacity in bs[i := n # bs ! i])"

definition rehash :: "nat \<Rightarrow> 'v hash_node list list \<Rightarrow> 'v hash_node list list" where
  "rehash new_capacity bs =
     fold (fold (rehash_node new_capacity)) bs (replicate new_capacity [])"

definition needs_growth :: "'v ssn_hash_table \<Rightarrow> bool" where
  "needs_growth t \<longleftrightarrow> 4 * ht_size t > 3 * capacity t"

definition grow :: "syscalls \<Rightarrow> 'v ssn_hash_table \<Rightarrow> os \<Rightarrow> bool \<times> 'v ssn_hash_table \<times> os" where
  "grow sc t w =
     (if needs_growth t then
        (case os_calloc sc w of
           (False, w) \<Rightarrow> (False, t, w)
         | (True, w) \<Rightarrow>
             (True, t\<lparr>buckets := rehash (2 * capacity t) (buckets t), capacity := 2 * capacity t\<rparr>, w))
      else (True, t, w))"

definition int_index :: "u64 \<Rightarrow> nat \<Rightarrow> nat" where
  "int_index k cap = hash_mod (hash_uint32 (ucast k)) cap"

definition str_hash_index :: "bytes \<Rightarrow> nat \<Rightarrow> nat" where
  "str_hash_index k cap = hash_mod (ssn_hash_string (Some k)) cap"

text \<open>The tail that both setters share: overwrite the first matching node of the bucket, or
  push a new node.\<close>

definition push_node :: "nat \<Rightarrow> 'v hash_node \<Rightarrow> 'v ssn_hash_table \<Rightarrow> 'v ssn_hash_table" where
  "push_node i n t = t\<lparr>buckets := (buckets t)[i := n # buckets t ! i], ht_size := ht_size t + 1\<rparr>"

definition overwrite :: "nat \<Rightarrow> ('v hash_node \<Rightarrow> bool) \<Rightarrow> 'v option \<Rightarrow> 'v ssn_hash_table \<Rightarrow> 'v ssn_hash_table" where
  "overwrite i P v t =
     t\<lparr>buckets := (buckets t)[i := update_first P (\<lambda>n. n\<lparr>node_value := v\<rparr>) (buckets t ! i)]\<rparr>"

definition unlink_node :: "nat \<Rightarrow> ('v hash_node \<Rightarrow> bool) \<Rightarrow> 'v ssn_hash_table \<Rightarrow> 'v ssn_hash_table" where
  "unlink_node i P t =
     t\<lparr>buckets := (buckets t)[i := remove_first P (buckets t ! i)], ht_size := ht_size t - 1\<rparr>"

definition ssn_hash_table_set ::
  "syscalls \<Rightarrow> bytes option \<Rightarrow> 'v ssn_hash_table \<Rightarrow> u64 \<Rightarrow> 'v option \<Rightarrow> os \<Rightarrow> bool \<times> 'v ssn_hash_table \<times> os" where
  "ssn_hash_table_set sc junk t k v w =
     (if k = 0 then (False, t, w)
      else case grow sc t w of
        (False, t, w) \<Rightarrow> (False, t, w)
      | (True, t, w) \<Rightarrow>
          let i = int_index k (capacity t) in
          (case List.find (\<lambda>n. node_key n = k) (buckets t ! i) of
             Some n \<Rightarrow> (True, overwrite i (\<lambda>n. node_key n = k) v t, w)
           | None \<Rightarrow> (case os_calloc sc w of
               (False, w) \<Rightarrow> (False, t, w)
             | (True, w) \<Rightarrow>
                 (True, push_node i \<lparr>node_key = k, str_key = junk, node_value = v\<rparr> t, w))))"

definition ssn_hash_table_get :: "'v ssn_hash_table \<Rightarrow> u64 \<Rightarrow> 'v option" where
  "ssn_hash_table_get t k =
     (if k = 0 then None
      else case List.find (\<lambda>n. node_key n = k) (buckets t ! int_index k (capacity t)) of
        Some n \<Rightarrow> node_value n
      | None \<Rightarrow> None)"

definition ssn_hash_table_remove :: "'v ssn_hash_table \<Rightarrow> u64 \<Rightarrow> bool \<times> 'v ssn_hash_table" where
  "ssn_hash_table_remove t k =
     (if k = 0 then (False, t)
      else let i = int_index k (capacity t) in
        (case List.find (\<lambda>n. node_key n = k) (buckets t ! i) of
           None \<Rightarrow> (False, t)
         | Some n \<Rightarrow> (True, unlink_node i (\<lambda>n. node_key n = k) t)))"

definition ssn_hash_table_set_str ::
  "syscalls \<Rightarrow> 'v ssn_hash_table \<Rightarrow> bytes \<Rightarrow> 'v option \<Rightarrow> os \<Rightarrow> bool \<times> 'v ssn_hash_table \<times> os" where
  "ssn_hash_table_set_str sc t k v w =
     (let i = str_hash_index k (capacity t) in
      case List.find (\<lambda>n. str_key n = Some k) (buckets t ! i) of
        Some n \<Rightarrow> (True, overwrite i (\<lambda>n. str_key n = Some k) v t, w)
      | None \<Rightarrow> (case os_calloc sc w of
          (False, w) \<Rightarrow> (False, t, w)
        | (True, w) \<Rightarrow> (case os_calloc sc w of
            (False, w) \<Rightarrow> (False, t, w)
          | (True, w) \<Rightarrow>
              (True, push_node i \<lparr>node_key = 0, str_key = Some k, node_value = v\<rparr> t, w))))"

definition ssn_hash_table_get_str :: "'v ssn_hash_table \<Rightarrow> bytes \<Rightarrow> 'v option" where
  "ssn_hash_table_get_str t k =
     (case List.find (\<lambda>n. str_key n = Some k) (buckets t ! str_hash_index k (capacity t)) of
        Some n \<Rightarrow> node_value n
      | None \<Rightarrow> None)"

definition ssn_hash_table_remove_str :: "'v ssn_hash_table \<Rightarrow> bytes \<Rightarrow> bool \<times> 'v ssn_hash_table" where
  "ssn_hash_table_remove_str t k =
     (let i = str_hash_index k (capacity t) in
      case List.find (\<lambda>n. str_key n = Some k) (buckets t ! i) of
        None \<Rightarrow> (False, t)
      | Some n \<Rightarrow> (True, unlink_node i (\<lambda>n. str_key n = Some k) t))"

definition ssn_hash_table_contains_str :: "'v ssn_hash_table \<Rightarrow> bytes \<Rightarrow> bool" where
  "ssn_hash_table_contains_str t k \<longleftrightarrow> ssn_hash_table_get_str t k \<noteq> None"

definition ssn_hash_table_size :: "'v ssn_hash_table option \<Rightarrow> nat" where
  "ssn_hash_table_size t = (case t of None \<Rightarrow> 0 | Some t \<Rightarrow> ht_size t)"

text \<open>\<^verbatim>\<open>ssn_hash_table_destroy\<close>: the string keys it frees, bucket by bucket. A key that
  \<^verbatim>\<open>ssn_hash_table_set\<close> left uninitialised is passed to \<^verbatim>\<open>free\<close> as well.\<close>

definition ssn_hash_table_destroy :: "'v ssn_hash_table \<Rightarrow> bytes list" where
  "ssn_hash_table_destroy t = List.map_filter str_key (concat (buckets t))"


section \<open>Invariant and abstraction\<close>

type_synonym node_ident = "u64 \<times> bytes option"

definition node_id :: "'v hash_node \<Rightarrow> node_ident" where
  "node_id n = (node_key n, str_key n)"

definition id_hash :: "node_ident \<Rightarrow> u32" where
  "id_hash d = (case snd d of
       Some s \<Rightarrow> ssn_hash_string (Some s)
     | None \<Rightarrow> hash_uint32 (ucast (fst d)))"

definition id_index :: "node_ident \<Rightarrow> nat \<Rightarrow> nat" where
  "id_index d cap = hash_mod (id_hash d) cap"

text \<open>Every node is in the bucket of its key, integer keys are not 0 and string keys are marked
  with 0, no key occurs twice, and \<^verbatim>\<open>size\<close> counts the nodes.\<close>

definition ht_inv :: "'v ssn_hash_table \<Rightarrow> bool" where
  "ht_inv t \<longleftrightarrow> 0 < capacity t \<and> length (buckets t) = capacity t \<and>
     ht_size t = length (concat (buckets t)) \<and>
     distinct (map node_id (concat (buckets t))) \<and>
     (\<forall>n \<in> set (concat (buckets t)). str_key n = None \<longleftrightarrow> node_key n \<noteq> 0) \<and>
     (\<forall>i < capacity t. \<forall>n \<in> set (buckets t ! i). id_index (node_id n) (capacity t) = i)"

text \<open>The finite map a table stands for.\<close>

definition ht_map :: "'v ssn_hash_table \<Rightarrow> node_ident \<rightharpoonup> 'v option" where
  "ht_map t = map_of (map (\<lambda>n. (node_id n, node_value n)) (concat (buckets t)))"

section \<open>Lists\<close>

lemma concat_update_split:
  assumes "i < length bs"
  obtains A B where "concat bs = A @ bs ! i @ B" "\<And>xs. concat (bs[i := xs]) = A @ xs @ B"
proof
  show "concat bs = concat (take i bs) @ bs ! i @ concat (drop (Suc i) bs)"
    by (subst id_take_nth_drop [OF assms]) simp
  show "concat (bs[i := xs]) = concat (take i bs) @ xs @ concat (drop (Suc i) bs)" for xs
    using assms by (simp add: upd_conv_take_nth_drop)
qed

lemma find_map_of: "map_of (map (\<lambda>n. (g n, h n)) xs) d = map_option h (List.find (\<lambda>n. g n = d) xs)"
  by (induction xs) auto

lemma update_first_cong:
  "(\<And>n. n \<in> set xs \<Longrightarrow> P n = Q n) \<Longrightarrow> update_first P f xs = update_first Q f xs"
  by (induction xs) auto

lemma remove_first_cong:
  "(\<And>n. n \<in> set xs \<Longrightarrow> P n = Q n) \<Longrightarrow> remove_first P xs = remove_first Q xs"
  by (induction xs) auto

lemma find_list_cong:
  "(\<And>n. n \<in> set xs \<Longrightarrow> P n = Q n) \<Longrightarrow> List.find P xs = List.find Q xs"
  by (induction xs) auto

lemma update_first_split:
  assumes "List.find P xs = Some n"
  obtains A B where "xs = A @ n # B" "update_first P f xs = A @ f n # B"
    "remove_first P xs = A @ B" "P n" "\<And>m. m \<in> set A \<Longrightarrow> \<not> P m"
proof -
  have "\<exists>A B. xs = A @ n # B \<and> update_first P f xs = A @ f n # B \<and> remove_first P xs = A @ B
      \<and> P n \<and> (\<forall>m \<in> set A. \<not> P m)"
    using assms
  proof (induction xs)
    case (Cons a xs)
    show ?case
    proof (cases "P a")
      case True
      with Cons.prems show ?thesis by (intro exI [of _ "[]"] exI [of _ xs]) simp
    next
      case False
      with Cons.prems Cons.IH obtain A B where "xs = A @ n # B" "update_first P f xs = A @ f n # B"
        "remove_first P xs = A @ B" "P n" "\<forall>m \<in> set A. \<not> P m"
        by auto
      with False show ?thesis by (intro exI [of _ "a # A"] exI [of _ B]) simp
    qed
  qed simp
  with that show ?thesis by blast
qed

section \<open>Refinement of the operations to a finite map\<close>

lemma node_hash_id: "node_hash n = id_hash (node_id n)"
  by (simp add: node_hash_def id_hash_def node_id_def split: option.splits)

lemma index_id:
  "int_index k cap = id_index (k, None) cap"
  "str_hash_index s cap = id_index (0, Some s) cap"
  by (simp_all add: int_index_def str_hash_index_def id_index_def id_hash_def)

lemma id_index_less: "ht_inv t \<Longrightarrow> id_index d (capacity t) < length (buckets t)"
  by (simp add: ht_inv_def id_index_def hash_mod_def)

lemma in_bucket:
  assumes "ht_inv t" "n \<in> set (concat (buckets t))"
  shows "n \<in> set (buckets t ! id_index (node_id n) (capacity t))"
proof -
  obtain i where i: "i < length (buckets t)" "n \<in> set (buckets t ! i)"
    using assms(2) by (metis UN_E set_concat in_set_conv_nth)
  with assms(1) have "id_index (node_id n) (capacity t) = i"
    by (auto simp: ht_inv_def)
  with i show ?thesis by simp
qed

lemma match_id:
  assumes "ht_inv t" "i < length (buckets t)" "n \<in> set (buckets t ! i)"
  shows "str_key n = Some k \<longleftrightarrow> node_id n = (0, Some k)"
    and "k' \<noteq> 0 \<Longrightarrow> node_key n = k' \<longleftrightarrow> node_id n = (k', None)"
proof -
  have "n \<in> set (concat (buckets t))" using assms(2,3) by auto
  with assms(1) have e: "str_key n = None \<longleftrightarrow> node_key n \<noteq> 0" unfolding ht_inv_def by blast
  from e show "str_key n = Some k \<longleftrightarrow> node_id n = (0, Some k)" by (auto simp: node_id_def)
  from e show "k' \<noteq> 0 \<Longrightarrow> node_key n = k' \<longleftrightarrow> node_id n = (k', None)" by (auto simp: node_id_def)
qed

lemma ht_map_bucket:
  assumes inv: "ht_inv t"
  shows "ht_map t d =
    map_option node_value (List.find (\<lambda>n. node_id n = d) (buckets t ! id_index d (capacity t)))"
proof -
  let ?i = "id_index d (capacity t)"
  have i: "?i < length (buckets t)" using inv by (rule id_index_less)
  obtain A B where c: "concat (buckets t) = A @ buckets t ! ?i @ B"
    using concat_update_split [OF i] by metis
  have d: "distinct (map node_id (A @ buckets t ! ?i @ B))"
    using inv unfolding ht_inv_def c by blast
  have no: "n \<notin> set A" "n \<notin> set B" if "node_id n = d" for n
  proof -
    have "n \<in> set (buckets t ! ?i)" if "n \<in> set A \<union> set B"
      using in_bucket [OF inv, of n, unfolded c] that \<open>node_id n = d\<close> by auto
    moreover have "n \<notin> set A \<union> set B" if "n \<in> set (buckets t ! ?i)"
      using d imageI [OF that, of node_id] unfolding map_append distinct_append set_map set_append
      by (metis (no_types) IntI UnI1 UnE UnI2 empty_iff imageI)
    ultimately show "n \<notin> set A" "n \<notin> set B" by blast+
  qed
  have "List.find (\<lambda>n. node_id n = d) (concat (buckets t)) = List.find (\<lambda>n. node_id n = d) (buckets t ! ?i)"
  proof (cases "List.find (\<lambda>n. node_id n = d) (buckets t ! ?i)")
    case None
    then have "\<not> (\<exists>n. n \<in> set (concat (buckets t)) \<and> node_id n = d)"
      unfolding c find_None_iff using no by auto
    then have "List.find (\<lambda>n. node_id n = d) (concat (buckets t)) = None"
      unfolding find_None_iff .
    with None show ?thesis by simp
  next
    case (Some n)
    have "List.find (\<lambda>n. node_id n = d) A = None" unfolding find_None_iff using no by auto
    then have "List.find (\<lambda>n. node_id n = d) (A @ X) = List.find (\<lambda>n. node_id n = d) X" for X
      by (induction A) (auto split: if_splits)
    moreover have "List.find P xs = Some n \<Longrightarrow> List.find P (xs @ ys) = Some n" for P and xs ys :: "'a hash_node list"
      by (induction xs) (auto split: if_splits)
    ultimately show ?thesis using Some unfolding c by simp
  qed
  then show ?thesis by (simp add: ht_map_def find_map_of)
qed

lemma find_as_id:
  assumes "ht_inv t"
  shows "List.find (\<lambda>n. str_key n = Some k) (buckets t ! str_hash_index k (capacity t)) =
      List.find (\<lambda>n. node_id n = (0, Some k)) (buckets t ! id_index (0, Some k) (capacity t))"
    and "k' \<noteq> 0 \<Longrightarrow> List.find (\<lambda>n. node_key n = k') (buckets t ! int_index k' (capacity t)) =
      List.find (\<lambda>n. node_id n = (k', None)) (buckets t ! id_index (k', None) (capacity t))"
  unfolding index_id
  by (intro find_list_cong, rule match_id [OF assms id_index_less [OF assms]], assumption)
     (intro find_list_cong, rule match_id [OF assms id_index_less [OF assms]], assumption+)

lemma ops_as_id:
  assumes "ht_inv t"
  shows "overwrite (str_hash_index k (capacity t)) (\<lambda>n. str_key n = Some k) v t =
      overwrite (id_index (0, Some k) (capacity t)) (\<lambda>n. node_id n = (0, Some k)) v t"
    and "unlink_node (str_hash_index k (capacity t)) (\<lambda>n. str_key n = Some k) t =
      unlink_node (id_index (0, Some k) (capacity t)) (\<lambda>n. node_id n = (0, Some k)) t"
    and "k' \<noteq> 0 \<Longrightarrow> overwrite (int_index k' (capacity t)) (\<lambda>n. node_key n = k') v t =
      overwrite (id_index (k', None) (capacity t)) (\<lambda>n. node_id n = (k', None)) v t"
    and "k' \<noteq> 0 \<Longrightarrow> unlink_node (int_index k' (capacity t)) (\<lambda>n. node_key n = k') t =
      unlink_node (id_index (k', None) (capacity t)) (\<lambda>n. node_id n = (k', None)) t"
proof -
  note m = match_id [OF assms id_index_less [OF assms]]
  show "overwrite (str_hash_index k (capacity t)) (\<lambda>n. str_key n = Some k) v t =
      overwrite (id_index (0, Some k) (capacity t)) (\<lambda>n. node_id n = (0, Some k)) v t"
    unfolding index_id overwrite_def by (subst update_first_cong [OF m(1)]) simp_all
  show "unlink_node (str_hash_index k (capacity t)) (\<lambda>n. str_key n = Some k) t =
      unlink_node (id_index (0, Some k) (capacity t)) (\<lambda>n. node_id n = (0, Some k)) t"
    unfolding index_id unlink_node_def by (subst remove_first_cong [OF m(1)]) simp_all
  assume k: "k' \<noteq> 0"
  show "overwrite (int_index k' (capacity t)) (\<lambda>n. node_key n = k') v t =
      overwrite (id_index (k', None) (capacity t)) (\<lambda>n. node_id n = (k', None)) v t"
    unfolding index_id overwrite_def by (subst update_first_cong [OF m(2)]) (simp_all add: k)
  show "unlink_node (int_index k' (capacity t)) (\<lambda>n. node_key n = k') t =
      unlink_node (id_index (k', None) (capacity t)) (\<lambda>n. node_id n = (k', None)) t"
    unfolding index_id unlink_node_def by (subst remove_first_cong [OF m(2)]) (simp_all add: k)
qed


text \<open>Changing one bucket: what is left to show for the invariant.\<close>

lemma ht_inv_update:
  assumes inv: "ht_inv t" and i: "i < capacity t"
    and s: "buckets s = (buckets t)[i := xs]" "capacity s = capacity t" "ht_size s + length (buckets t ! i) = ht_size t + length xs"
    and xs: "\<And>n. n \<in> set xs \<Longrightarrow> node_id n \<in> node_id ` set (buckets t ! i) \<or>
        node_id n \<notin> node_id ` set (concat (buckets t)) \<and> id_index (node_id n) (capacity t) = i \<and>
        (str_key n = None \<longleftrightarrow> node_key n \<noteq> 0)"
    and d: "distinct (map node_id xs)"
  shows "ht_inv s"
proof -
  have len: "i < length (buckets t)" using inv i by (simp add: ht_inv_def)
  obtain A B where c: "concat (buckets t) = A @ buckets t ! i @ B"
    "\<And>ys. concat ((buckets t)[i := ys]) = A @ ys @ B"
    by (rule concat_update_split [OF len]) (rule that)
  have cap: "0 < capacity t" "length (buckets t) = capacity t"
    and size: "ht_size t = length (A @ buckets t ! i @ B)"
    and D: "distinct (map node_id (A @ buckets t ! i @ B))"
    and key: "n \<in> set (A @ buckets t ! i @ B) \<Longrightarrow> str_key n = None \<longleftrightarrow> node_key n \<noteq> 0"
    and idx: "j < capacity t \<Longrightarrow> n \<in> set (buckets t ! j) \<Longrightarrow> id_index (node_id n) (capacity t) = j" for n j
    using inv unfolding ht_inv_def c(1) by blast+
  have apart: "node_id ` set (buckets t ! i) \<inter> node_id ` set A = {}"
    "node_id ` set (buckets t ! i) \<inter> node_id ` set B = {}" "node_id ` set A \<inter> node_id ` set B = {}"
    using D by (auto simp: Int_Un_distrib)
  have new: "id_index (node_id n) (capacity t) = i \<and> (str_key n = None \<longleftrightarrow> node_key n \<noteq> 0)
      \<and> node_id n \<notin> node_id ` set A \<and> node_id n \<notin> node_id ` set B" if n: "n \<in> set xs" for n
  proof (cases "node_id n \<in> node_id ` set (buckets t ! i)")
    case True
    then obtain m where m: "m \<in> set (buckets t ! i)" "node_id n = node_id m" by (rule imageE)
    have "str_key m = None \<longleftrightarrow> node_key m \<noteq> 0" by (rule key) (simp add: m(1))
    moreover have "node_id n \<notin> node_id ` set A" "node_id n \<notin> node_id ` set B"
      using apart True by blast+
    ultimately show ?thesis using m(2) idx [OF i m(1)] by (simp add: node_id_def)
  next
    case False
    with xs [OF n] show ?thesis unfolding c(1) set_append image_Un by blast
  qed
  have "node_id ` set A \<inter> node_id ` set xs = {}" "node_id ` set xs \<inter> node_id ` set B = {}"
    unfolding disjoint_iff by (metis (no_types) imageE new)+
  with D d apart have "distinct (map node_id (A @ xs @ B))"
    by (simp add: Int_Un_distrib)
  moreover have "\<forall>n \<in> set (A @ xs @ B). str_key n = None \<longleftrightarrow> node_key n \<noteq> 0"
    using key new unfolding set_append by blast
  moreover have "\<forall>j < capacity t. \<forall>n \<in> set ((buckets t)[i := xs] ! j). id_index (node_id n) (capacity t) = j"
  proof (intro allI impI ballI)
    fix j n
    assume "j < capacity t" "n \<in> set ((buckets t)[i := xs] ! j)"
    then show "id_index (node_id n) (capacity t) = j"
      using new idx len by (cases "j = i") simp_all
  qed
  moreover have "ht_size s = length (A @ xs @ B)"
    using size s(3) by simp
  ultimately show ?thesis
    using cap unfolding ht_inv_def s(1,2) c(2) length_list_update by blast
qed

lemma find_id_None:
  assumes "ht_inv t" "List.find (\<lambda>n. node_id n = d) (buckets t ! id_index d (capacity t)) = None"
  shows "d \<notin> node_id ` set (concat (buckets t))"
proof
  assume "d \<in> node_id ` set (concat (buckets t))"
  then obtain n where "n \<in> set (concat (buckets t))" "d = node_id n" by blast
  with in_bucket [OF assms(1), of n] assms(2) show False unfolding find_None_iff by blast
qed

lemma distinct_bucket:
  assumes "ht_inv t" "i < capacity t"
  shows "distinct (map node_id (buckets t ! i))"
proof -
  have "i < length (buckets t)" using assms by (simp add: ht_inv_def)
  then obtain A B where "concat (buckets t) = A @ buckets t ! i @ B"
    using concat_update_split by metis
  moreover have "distinct (map node_id (concat (buckets t)))"
    using assms(1) unfolding ht_inv_def by blast
  ultimately show ?thesis by simp
qed

lemma push_node_refines:
  assumes inv: "ht_inv t" and i: "i = id_index (node_id n) (capacity t)"
    and new: "List.find (\<lambda>m. node_id m = node_id n) (buckets t ! i) = None"
    and nn: "str_key n = None \<longleftrightarrow> node_key n \<noteq> 0"
  shows "ht_inv (push_node i n t)"
    and "ht_map (push_node i n t) = (ht_map t)(node_id n \<mapsto> node_value n)"
proof -
  have i': "i < capacity t" "length (buckets t) = capacity t"
    using inv by (auto simp: i id_index_def hash_mod_def ht_inv_def)
  have fresh: "node_id n \<notin> node_id ` set (concat (buckets t))"
    using inv new unfolding i by (rule find_id_None)
  have fresh': "node_id n \<notin> node_id ` set (buckets t ! i)"
    using new by (auto simp: find_None_iff)
  show inv': "ht_inv (push_node i n t)"
  proof (rule ht_inv_update [OF inv i'(1), where xs = "n # buckets t ! i"])
    show "distinct (map node_id (n # buckets t ! i))"
      using fresh' distinct_bucket [OF inv i'(1)] by simp
    show "node_id m \<in> node_id ` set (buckets t ! i) \<or>
        node_id m \<notin> node_id ` set (concat (buckets t)) \<and> id_index (node_id m) (capacity t) = i \<and>
        (str_key m = None \<longleftrightarrow> node_key m \<noteq> 0)" if "m \<in> set (n # buckets t ! i)" for m
      using that fresh nn i by auto
  qed (simp_all add: push_node_def)
  show "ht_map (push_node i n t) = (ht_map t)(node_id n \<mapsto> node_value n)"
  proof
    fix d
    show "ht_map (push_node i n t) d = ((ht_map t)(node_id n \<mapsto> node_value n)) d"
      unfolding ht_map_bucket [OF inv'] fun_upd_apply ht_map_bucket [OF inv]
      using i i' by (auto simp: push_node_def nth_list_update)
  qed
qed

lemma overwrite_refines:
  assumes inv: "ht_inv t" and i: "i = id_index d (capacity t)"
    and found: "List.find (\<lambda>m. node_id m = d) (buckets t ! i) = Some n"
  shows "ht_inv (overwrite i (\<lambda>m. node_id m = d) v t)"
    and "ht_map (overwrite i (\<lambda>m. node_id m = d) v t) = (ht_map t)(d \<mapsto> v)"
proof -
  let ?f = "\<lambda>n. n\<lparr>node_value := v\<rparr>"
  have i': "i < capacity t" "length (buckets t) = capacity t"
    using inv by (auto simp: i id_index_def hash_mod_def ht_inv_def)
  obtain A B where AB: "buckets t ! i = A @ n # B"
    "update_first (\<lambda>m. node_id m = d) ?f (buckets t ! i) = A @ ?f n # B" "node_id n = d"
    "\<And>m. m \<in> set A \<Longrightarrow> node_id m \<noteq> d"
    using found by (rule update_first_split [where f = ?f]) blast
  have id: "node_id (?f m) = node_id m" for m by (simp add: node_id_def)
  have b: "buckets (overwrite i (\<lambda>m. node_id m = d) v t) = (buckets t)[i := A @ ?f n # B]"
    "capacity (overwrite i (\<lambda>m. node_id m = d) v t) = capacity t"
    "ht_size (overwrite i (\<lambda>m. node_id m = d) v t) = ht_size t"
    by (simp_all add: overwrite_def AB(2))
  show inv': "ht_inv (overwrite i (\<lambda>m. node_id m = d) v t)"
  proof (rule ht_inv_update [OF inv i'(1), where xs = "A @ ?f n # B"])
    show "distinct (map node_id (A @ ?f n # B))"
      using distinct_bucket [OF inv i'(1)] by (simp add: AB id)
    show "node_id m \<in> node_id ` set (buckets t ! i) \<or>
        node_id m \<notin> node_id ` set (concat (buckets t)) \<and> id_index (node_id m) (capacity t) = i \<and>
        (str_key m = None \<longleftrightarrow> node_key m \<noteq> 0)" if "m \<in> set (A @ ?f n # B)" for m
      using that by (auto simp: AB id)
  qed (simp_all add: b, simp add: AB(1))
  have fA: "List.find (\<lambda>m. node_id m = d') (A @ ?f n # B) =
      map_option (\<lambda>m. if d' = d then ?f m else m) (List.find (\<lambda>m. node_id m = d') (A @ n # B))" for d'
    using AB(3,4) by (induction A) (auto simp: id option.map_ident)
  show "ht_map (overwrite i (\<lambda>m. node_id m = d) v t) = (ht_map t)(d \<mapsto> v)"
  proof
    fix d'
    show "ht_map (overwrite i (\<lambda>m. node_id m = d) v t) d' = ((ht_map t)(d \<mapsto> v)) d'"
      unfolding ht_map_bucket [OF inv'] fun_upd_apply ht_map_bucket [OF inv] b
    proof (cases "id_index d' (capacity t) = i")
      case True
      then show "map_option node_value (List.find (\<lambda>m. node_id m = d')
          ((buckets t)[i := A @ ?f n # B] ! id_index d' (capacity t))) =
          (if d' = d then Some v
           else map_option node_value (List.find (\<lambda>m. node_id m = d') (buckets t ! id_index d' (capacity t))))"
        using i' found by (simp add: fA AB(1) option.map_ident)
    qed (use i in auto)
  qed
qed

lemma unlink_refines:
  assumes inv: "ht_inv t" and i: "i = id_index d (capacity t)"
    and found: "List.find (\<lambda>m. node_id m = d) (buckets t ! i) = Some n"
  shows "ht_inv (unlink_node i (\<lambda>m. node_id m = d) t)"
    and "ht_map (unlink_node i (\<lambda>m. node_id m = d) t) = (ht_map t)(d := None)"
proof -
  have i': "i < capacity t" "length (buckets t) = capacity t"
    using inv by (auto simp: i id_index_def hash_mod_def ht_inv_def)
  obtain A B where AB: "buckets t ! i = A @ n # B"
    "remove_first (\<lambda>m. node_id m = d) (buckets t ! i) = A @ B" "node_id n = d"
    using found by (rule update_first_split [where f = id]) blast
  have db: "distinct (map node_id (A @ n # B))"
    using distinct_bucket [OF inv i'(1)] by (simp add: AB)
  have "n \<in> set (concat (buckets t))" using i' AB(1) by (metis UN_I in_set_conv_decomp nth_mem set_concat)
  then have "0 < length (concat (buckets t))" by (rule length_pos_if_in_set)
  moreover have "ht_size t = length (concat (buckets t))" using inv unfolding ht_inv_def by blast
  ultimately have sz: "0 < ht_size t" by linarith
  have b: "buckets (unlink_node i (\<lambda>m. node_id m = d) t) = (buckets t)[i := A @ B]"
    "capacity (unlink_node i (\<lambda>m. node_id m = d) t) = capacity t"
    "ht_size (unlink_node i (\<lambda>m. node_id m = d) t) = ht_size t - 1"
    by (simp_all add: unlink_node_def AB(2))
  show inv': "ht_inv (unlink_node i (\<lambda>m. node_id m = d) t)"
  proof (rule ht_inv_update [OF inv i'(1), where xs = "A @ B"])
    show "node_id m \<in> node_id ` set (buckets t ! i) \<or>
        node_id m \<notin> node_id ` set (concat (buckets t)) \<and> id_index (node_id m) (capacity t) = i \<and>
        (str_key m = None \<longleftrightarrow> node_key m \<noteq> 0)" if "m \<in> set (A @ B)" for m
      using that by (auto simp: AB)
  qed (use db sz in \<open>simp_all add: b\<close>, simp add: AB(1))
  have fA: "List.find (\<lambda>m. node_id m = d') (A @ B) =
      (if d' = d then None else List.find (\<lambda>m. node_id m = d') (A @ n # B))" for d'
    using db AB(3) by (induction A) (auto simp: find_None_iff image_iff)
  show "ht_map (unlink_node i (\<lambda>m. node_id m = d) t) = (ht_map t)(d := None)"
  proof
    fix d'
    show "ht_map (unlink_node i (\<lambda>m. node_id m = d) t) d' = ((ht_map t)(d := None)) d'"
      unfolding ht_map_bucket [OF inv'] fun_upd_apply ht_map_bucket [OF inv] b
    proof (cases "id_index d' (capacity t) = i")
      case True
      then show "map_option node_value (List.find (\<lambda>m. node_id m = d')
          ((buckets t)[i := A @ B] ! id_index d' (capacity t))) =
          (if d' = d then None
           else map_option node_value (List.find (\<lambda>m. node_id m = d') (buckets t ! id_index d' (capacity t))))"
        using i' by (simp add: fA AB(1))
    qed (use i in auto)
  qed
qed


section \<open>Growth\<close>

lemma fold_fold_concat: "fold (fold f) bs x = fold f (concat bs) x"
  by (induction bs arbitrary: x) simp_all

lemma length_rehash_nodes [simp]: "length (fold (rehash_node nc) ns bs) = length bs"
  by (induction ns arbitrary: bs) (simp_all add: rehash_node_def Let_def)

lemma length_rehash [simp]: "length (rehash nc bs) = nc"
  by (simp add: rehash_def fold_fold_concat)

lemma rehash_nodes_nth:
  "length bs = nc \<Longrightarrow> j < nc \<Longrightarrow>
   fold (rehash_node nc) ns bs ! j = rev (filter (\<lambda>n. id_index (node_id n) nc = j) ns) @ bs ! j"
proof (induction ns arbitrary: bs)
  case (Cons n ns)
  have "hash_mod (node_hash n) nc < length bs" using Cons.prems by (simp add: hash_mod_def)
  with Cons show ?case
    by (simp add: rehash_node_def Let_def nth_list_update id_index_def node_hash_id)
qed simp

lemma rehash_nth:
  "j < nc \<Longrightarrow> rehash nc bs ! j = rev (filter (\<lambda>n. id_index (node_id n) nc = j) (concat bs))"
  by (simp add: rehash_def fold_fold_concat rehash_nodes_nth)

lemma mset_rehash_nodes:
  "length bs = nc \<Longrightarrow> 0 < nc \<Longrightarrow>
   mset (concat (fold (rehash_node nc) ns bs)) = mset ns + mset (concat bs)"
proof (induction ns arbitrary: bs)
  case (Cons n ns)
  let ?i = "hash_mod (node_hash n) nc"
  have i: "?i < length bs" using Cons.prems by (simp add: hash_mod_def)
  obtain A B where c: "concat bs = A @ bs ! ?i @ B" "\<And>xs. concat (bs[?i := xs]) = A @ xs @ B"
    by (rule concat_update_split [OF i]) (rule that)
  have "mset (concat (rehash_node nc n bs)) = add_mset n (mset (concat bs))"
    unfolding rehash_node_def Let_def c by simp
  moreover have "length (rehash_node nc n bs) = nc"
    using Cons.prems by (simp add: rehash_node_def Let_def)
  ultimately show ?case using Cons.IH [of "rehash_node nc n bs"] Cons.prems by simp
qed simp

lemma mset_rehash:
  assumes "0 < nc"
  shows "mset (concat (rehash nc bs)) = mset (concat bs)"
proof -
  from assms mset_rehash_nodes [of "replicate nc []" nc "concat bs"] show ?thesis
    by (simp only: rehash_def fold_fold_concat length_replicate concat_replicate_trivial mset.simps add_0_right)
qed

lemma rehash_refines:
  assumes inv: "ht_inv t"
  defines "s \<equiv> t\<lparr>buckets := rehash (2 * capacity t) (buckets t), capacity := 2 * capacity t\<rparr>"
  shows "ht_inv s" "ht_map s = ht_map t"
proof -
  have cap: "0 < capacity t" using inv by (simp add: ht_inv_def)
  have s: "buckets s = rehash (2 * capacity t) (buckets t)" "capacity s = 2 * capacity t"
    "ht_size s = ht_size t"
    by (simp_all add: s_def)
  have m: "mset (concat (buckets s)) = mset (concat (buckets t))"
    using cap by (simp add: s mset_rehash)
  have d: "distinct (map node_id (concat (buckets t)))" using inv unfolding ht_inv_def by blast
  have "mset (map node_id (concat (buckets s))) = mset (map node_id (concat (buckets t)))"
    using m by (simp only: mset_map)
  then have d': "distinct (map node_id (concat (buckets s)))"
    using d mset_eq_imp_distinct_iff by blast
  have len: "length (concat (buckets s)) = length (concat (buckets t))"
    using m by (rule mset_eq_length)
  have eq: "set (concat (buckets s)) = set (concat (buckets t))"
    using m by (rule mset_eq_setD)
  have "\<forall>i < capacity s. \<forall>n \<in> set (buckets s ! i). id_index (node_id n) (capacity s) = i"
    by (simp add: s rehash_nth)
  then show "ht_inv s"
    using inv d' len eq unfolding ht_inv_def s(2,3) by (simp add: s(1))
  have fst: "map fst (map (\<lambda>n. (node_id n, node_value n)) xs) = map node_id xs" for xs :: "'a hash_node list"
    by simp
  show "ht_map s = ht_map t"
    unfolding ht_map_def
  proof (subst map_of_inject_set)
    show "set (map (\<lambda>n. (node_id n, node_value n)) (concat (buckets s))) =
        set (map (\<lambda>n. (node_id n, node_value n)) (concat (buckets t)))"
      using eq by (simp only: set_map)
  qed (unfold fst, fact d', fact d)
qed

lemma grow_refines:
  assumes "ht_inv t" "grow sc t w = (ok, t', w')"
  shows "ht_inv t'" "ht_map t' = ht_map t" "\<not> ok \<Longrightarrow> t' = t"
    "same_io w w'"
  using assms rehash_refines [OF assms(1)]
  by (auto simp: grow_def os_calloc_def split: if_splits prod.splits bool.splits)

section \<open>The operations\<close>

lemma set_refines:
  assumes inv: "ht_inv t" and set: "ssn_hash_table_set sc None t k v w = (ok, t', w')"
  shows "ht_inv t'" "ht_map t' = (if ok then (ht_map t)((k, None) \<mapsto> v) else ht_map t)"
proof -
  have "ht_inv t' \<and> ht_map t' = (if ok then (ht_map t)((k, None) \<mapsto> v) else ht_map t)"
  proof (cases "k = 0")
    case True
    with set inv show ?thesis by (simp add: ssn_hash_table_set_def)
  next
    case False
    obtain g t1 w1 where g: "grow sc t w = (g, t1, w1)" by (cases "grow sc t w") auto
    note r = grow_refines [OF inv g]
    let ?i = "id_index (k, None) (capacity t1)"
    show ?thesis
    proof (cases g)
      case gF: False
      with set False g r show ?thesis by (simp add: ssn_hash_table_set_def)
    next
      case gT: True
      show ?thesis
      proof (cases "List.find (\<lambda>n. node_id n = (k, None)) (buckets t1 ! ?i)")
        case None
        let ?n = "\<lparr>node_key = k, str_key = None, node_value = v\<rparr>"
        have n: "node_id ?n = (k, None)" by (simp add: node_id_def)
        have p: "ht_inv (push_node ?i ?n t1)" "ht_map (push_node ?i ?n t1) = (ht_map t1)((k, None) \<mapsto> v)"
          using push_node_refines [OF r(1), of ?i ?n] None False by (simp_all add: n)
        show ?thesis
          using set False g gT None p r find_as_id(2) [OF r(1) False]
          by (auto simp: ssn_hash_table_set_def Let_def index_id os_calloc_def split: if_splits bool.splits)
      next
        case (Some m)
        show ?thesis
          using set False g gT Some r find_as_id(2) [OF r(1) False] ops_as_id(3) [OF r(1) False, of v]
            overwrite_refines [OF r(1) refl Some, of v]
          by (simp add: ssn_hash_table_set_def Let_def)
      qed
    qed
  qed
  then show "ht_inv t'" "ht_map t' = (if ok then (ht_map t)((k, None) \<mapsto> v) else ht_map t)"
    by blast+
qed

lemma get_refines:
  "ht_inv t \<Longrightarrow> k \<noteq> 0 \<Longrightarrow> ssn_hash_table_get t k = Option.bind (ht_map t (k, None)) id"
  using find_as_id(2) [of t k]
  by (simp add: ssn_hash_table_get_def ht_map_bucket split: option.splits)

lemma remove_refines:
  assumes inv: "ht_inv t" and k: "k \<noteq> 0" and rm: "ssn_hash_table_remove t k = (ok, t')"
  shows "ht_inv t'" "ht_map t' = (ht_map t)((k, None) := None)" "ok \<longleftrightarrow> ht_map t (k, None) \<noteq> None"
proof -
  let ?i = "id_index (k, None) (capacity t)"
  show "ht_inv t'" "ht_map t' = (ht_map t)((k, None) := None)" "ok \<longleftrightarrow> ht_map t (k, None) \<noteq> None"
    using rm k find_as_id(2) [OF inv k] ops_as_id(4) [OF inv k] unlink_refines [OF inv refl, of "(k, None)"] inv
    by (auto simp: ssn_hash_table_remove_def Let_def ht_map_bucket fun_upd_idem_iff split: option.splits)
qed

lemma set_str_refines:
  assumes inv: "ht_inv t" and set: "ssn_hash_table_set_str sc t k v w = (ok, t', w')"
  shows "ht_inv t'" "ht_map t' = (if ok then (ht_map t)((0, Some k) \<mapsto> v) else ht_map t)"
    "\<not> ok \<Longrightarrow> t' = t"
proof -
  let ?i = "id_index (0, Some k) (capacity t)"
  let ?n = "\<lparr>node_key = 0, str_key = Some k, node_value = v\<rparr>"
  have n: "node_id ?n = (0, Some k)" by (simp add: node_id_def)
  have p: "ht_inv (push_node ?i ?n t)" "ht_map (push_node ?i ?n t) = (ht_map t)((0, Some k) \<mapsto> v)"
    if "List.find (\<lambda>n. node_id n = (0, Some k)) (buckets t ! ?i) = None"
    using push_node_refines [OF inv, of ?i ?n] that by (simp_all add: n)
  show "ht_inv t'" "ht_map t' = (if ok then (ht_map t)((0, Some k) \<mapsto> v) else ht_map t)" "\<not> ok \<Longrightarrow> t' = t"
    using set find_as_id(1) [OF inv, of k] ops_as_id(1) [OF inv, of k v] p inv
      overwrite_refines [OF inv refl, of "(0, Some k)" _ v]
    by (auto simp: ssn_hash_table_set_str_def Let_def index_id os_calloc_def
        split: option.splits if_splits bool.splits)
qed

lemma set_str_frame:
  "ssn_hash_table_set_str sc t k v w = (ok, t', w') \<Longrightarrow>
   same_io w w'"
  by (auto simp: ssn_hash_table_set_str_def Let_def os_calloc_def split: option.splits bool.splits)

lemma set_frame: "ssn_hash_table_set sc junk t k v w = (ok, t', w') \<Longrightarrow> same_io w w'"
  by (auto simp: ssn_hash_table_set_def grow_def Let_def os_calloc_def
      split: option.splits bool.splits if_splits prod.splits)

lemma create_frame: "ssn_hash_table_create sc cap w = Some (r, w') \<Longrightarrow> same_io w w'"
  by (auto simp: ssn_hash_table_create_def os_calloc_def split: option.splits bool.splits)

lemma get_str_refines:
  "ht_inv t \<Longrightarrow> ssn_hash_table_get_str t k = Option.bind (ht_map t (0, Some k)) id"
  using find_as_id(1) [of t k]
  by (simp add: ssn_hash_table_get_str_def ht_map_bucket split: option.splits)

lemma remove_str_refines:
  assumes inv: "ht_inv t" and rm: "ssn_hash_table_remove_str t k = (ok, t')"
  shows "ht_inv t'" "ht_map t' = (ht_map t)((0, Some k) := None)" "ok \<longleftrightarrow> ht_map t (0, Some k) \<noteq> None"
  using rm find_as_id(1) [OF inv, of k] ops_as_id(2) [OF inv, of k] inv
    unlink_refines [OF inv refl, of "(0, Some k)"]
  by (auto simp: ssn_hash_table_remove_str_def Let_def ht_map_bucket fun_upd_idem_iff split: option.splits)

lemma ht_size_map: "ht_inv t \<Longrightarrow> ht_size t = card (dom (ht_map t))"
proof -
  assume inv: "ht_inv t"
  then have d: "distinct (map node_id (concat (buckets t)))" and sz: "ht_size t = length (concat (buckets t))"
    unfolding ht_inv_def by blast+
  have "dom (ht_map t) = set (map node_id (concat (buckets t)))"
    by (simp add: ht_map_def dom_map_of_conv_image_fst image_image)
  with d have "card (dom (ht_map t)) = length (map node_id (concat (buckets t)))"
    by (simp only: distinct_card)
  with sz show ?thesis by simp
qed

section \<open>Creation\<close>

lemma default_capacity_loop_power:
  "k \<le> 63 \<Longrightarrow> cap \<le> 2 ^ 63 \<Longrightarrow>
   \<exists>m. k \<le> m \<and> m \<le> 63 \<and> default_capacity_loop cap (2 ^ k) = Some (2 ^ m) \<and> cap \<le> 2 ^ m"
proof (induction "63 - k" arbitrary: k)
  case 0
  then show ?case
    by (intro exI [of _ 63]) (subst default_capacity_loop.simps, simp add: leD)
next
  case (Suc n)
  show ?case
  proof (cases "cap \<le> 2 ^ k")
    case True
    with Suc.prems show ?thesis
      by (intro exI [of _ k]) (simp add: default_capacity_loop.simps [of cap "2 ^ k"] leD)
  next
    case False
    have "n = 63 - Suc k" "Suc k \<le> 63" using Suc.hyps(2) by auto
    from Suc.hyps(1) [OF this Suc.prems(2)] obtain m where "Suc k \<le> m" "m \<le> 63"
      "default_capacity_loop cap (2 ^ Suc k) = Some (2 ^ m)" "cap \<le> 2 ^ m"
      by blast
    with False show ?thesis
      by (intro exI [of _ m]) (simp add: default_capacity_loop.simps [of cap "2 ^ k"] not_le mult.commute)
  qed
qed

lemma default_capacity_returns:
  assumes "cap \<le> 2 ^ 63"
  obtains m where "4 \<le> m" "m \<le> 63" "default_capacity cap = Some (2 ^ m)" "cap \<le> 2 ^ m"
  using default_capacity_loop_power [of 4 cap] assms by (auto simp: default_capacity_def)

lemma create_refines:
  assumes "cap \<le> 2 ^ 63"
  shows "\<exists>t w'. ssn_hash_table_create sc cap w = Some (t, w') \<and>
    (\<forall>t'. t = Some t' \<longrightarrow> ht_inv t' \<and> ht_map t' = Map.empty)"
proof -
  obtain m where m: "m \<le> 63" "default_capacity cap = Some (2 ^ m)"
    using assms by (rule default_capacity_returns)
  have "unat (2 ^ m :: u64) = 2 ^ m"
    using m(1) by (simp add: unsigned_of_nat [of "2 ^ m", simplified] take_bit_nat_eq_self)
  then show ?thesis
    by (auto simp: ssn_hash_table_create_def m(2) os_calloc_def ht_inv_def ht_map_def split: bool.splits)
qed

lemma create_Some:
  assumes "cap \<le> 2 ^ 63" "ssn_hash_table_create sc cap w = Some (Some (t :: 'v ssn_hash_table), w')"
  shows "ht_inv t" "ht_map t = Map.empty"
proof -
  obtain r w1 where "ssn_hash_table_create sc cap w = Some (r, w1)"
    "\<forall>t' :: 'v ssn_hash_table. r = Some t' \<longrightarrow> ht_inv t' \<and> ht_map t' = Map.empty"
    using create_refines [OF assms(1)] by metis
  with assms(2) show "ht_inv t" "ht_map t = Map.empty" by simp_all
qed

section \<open>The interface of the string keys\<close>

text \<open>What the clients of the table (the RPC method table, the subscription table) rely on.\<close>

locale string_table =
  fixes tinv :: "'t \<Rightarrow> bool"
    and tmap :: "'t \<Rightarrow> bytes \<rightharpoonup> 'v option"
    and tget :: "'t \<Rightarrow> bytes \<Rightarrow> 'v option"
    and tset :: "syscalls \<Rightarrow> 't \<Rightarrow> bytes \<Rightarrow> 'v option \<Rightarrow> os \<Rightarrow> bool \<times> 't \<times> os"
    and tremove :: "'t \<Rightarrow> bytes \<Rightarrow> bool \<times> 't"
  assumes get_law: "tinv t \<Longrightarrow> tget t k = Option.bind (tmap t k) id"
    and set_inv: "tinv t \<Longrightarrow> tset sc t k v w = (ok, t', w') \<Longrightarrow> tinv t'"
    and set_law: "tinv t \<Longrightarrow> tset sc t k v w = (True, t', w') \<Longrightarrow> tmap t' = (tmap t)(k \<mapsto> v)"
    and set_fails: "tinv t \<Longrightarrow> tset sc t k v w = (False, t', w') \<Longrightarrow> t' = t"
    and remove_inv: "tinv t \<Longrightarrow> tremove t k = (ok, t') \<Longrightarrow> tinv t'"
    and remove_law: "tinv t \<Longrightarrow> tremove t k = (ok, t') \<Longrightarrow> tmap t' = (tmap t)(k := None)"
    and remove_found: "tinv t \<Longrightarrow> tremove t k = (ok, t') \<Longrightarrow> ok \<longleftrightarrow> tmap t k \<noteq> None"
begin

lemma get_set_same: "tinv t \<Longrightarrow> tset sc t k v w = (True, t', w') \<Longrightarrow> tget t' k = v"
  by (simp add: get_law set_inv set_law)

lemma get_set_other: "tinv t \<Longrightarrow> tset sc t k v w = (ok, t', w') \<Longrightarrow> k' \<noteq> k \<Longrightarrow> tget t' k' = tget t k'"
  by (cases ok) (auto simp: get_law set_inv set_law dest: set_fails)

lemma get_remove: "tinv t \<Longrightarrow> tremove t k = (ok, t') \<Longrightarrow> tget t' k' = (if k' = k then None else tget t k')"
  by (simp add: get_law remove_inv remove_law)

lemma set_then_remove:
  assumes "tinv t" "tmap t k = None" "tset sc t k v w = (True, t1, w1)" "tremove t1 k = (ok, t2)"
  shows "ok" "tmap t2 = tmap t"
proof -
  have t1: "tinv t1" "tmap t1 = (tmap t)(k \<mapsto> v)" using assms(1,3) by (simp_all add: set_inv set_law)
  show "ok" using remove_found [OF t1(1) assms(4)] by (simp add: t1(2))
  show "tmap t2 = tmap t" using remove_law [OF t1(1) assms(4)] assms(2) by (auto simp: t1(2))
qed

end

definition str_map :: "'v ssn_hash_table \<Rightarrow> bytes \<rightharpoonup> 'v option" where
  "str_map t k = ht_map t (0, Some k)"

interpretation str_tab: string_table ht_inv str_map ssn_hash_table_get_str ssn_hash_table_set_str
  ssn_hash_table_remove_str
proof unfold_locales
  fix t :: "'v ssn_hash_table" and sc k v w t' w' ok
  assume inv: "ht_inv t"
  show "ssn_hash_table_get_str t k = Option.bind (str_map t k) id"
    using inv by (simp add: get_str_refines str_map_def)
  show "ht_inv t'" if "ssn_hash_table_set_str sc t k v w = (ok, t', w')"
    using set_str_refines(1) [OF inv that] .
  show "str_map t' = (str_map t)(k \<mapsto> v)" if "ssn_hash_table_set_str sc t k v w = (True, t', w')"
    using set_str_refines(2) [OF inv that] by (auto simp: str_map_def)
  show "t' = t" if "ssn_hash_table_set_str sc t k v w = (False, t', w')"
    using set_str_refines(3) [OF inv that] by simp
  show "ht_inv t'" if "ssn_hash_table_remove_str t k = (ok, t')"
    using remove_str_refines(1) [OF inv that] .
  show "str_map t' = (str_map t)(k := None)" if "ssn_hash_table_remove_str t k = (ok, t')"
    using remove_str_refines(2) [OF inv that] by (auto simp: str_map_def)
  show "ok \<longleftrightarrow> str_map t k \<noteq> None" if "ssn_hash_table_remove_str t k = (ok, t')"
    using remove_str_refines(3) [OF inv that] by (simp add: str_map_def)
qed

section \<open>Properties\<close>

text \<open>C15. A string key: after a successful \<^verbatim>\<open>ssn_hash_table_set_str\<close> the key is found with its
  value, every other string key and every integer key is found as before, the entry count is the
  number of keys, and \<^verbatim>\<open>ssn_hash_table_remove_str\<close> of the key succeeds and makes only that key
  disappear. A failed set changes nothing.\<close>

theorem string_keys_correct:
  assumes inv: "ht_inv t" and set: "ssn_hash_table_set_str sc t k v w = (ok, t1, w1)"
    and rm: "ssn_hash_table_remove_str t1 k = (rmok, t2)"
  shows "ht_inv t1 \<and> ht_inv t2 \<and>
    (if ok then rmok \<and> ssn_hash_table_get_str t1 k = v \<and> ssn_hash_table_get_str t2 k = None else t1 = t) \<and>
    (\<forall>k'. k' \<noteq> k \<longrightarrow> ssn_hash_table_get_str t1 k' = ssn_hash_table_get_str t k' \<and>
        ssn_hash_table_get_str t2 k' = ssn_hash_table_get_str t k') \<and>
    (\<forall>i. i \<noteq> 0 \<longrightarrow> ssn_hash_table_get t2 i = ssn_hash_table_get t i) \<and>
    ht_size t1 = card (dom (ht_map t1))"
proof (intro conjI)
  show i1: "ht_inv t1" using str_tab.set_inv [OF inv set] .
  show i2: "ht_inv t2" using str_tab.remove_inv [OF i1 rm] .
  show "if ok then rmok \<and> ssn_hash_table_get_str t1 k = v \<and> ssn_hash_table_get_str t2 k = None else t1 = t"
  proof (cases ok)
    case True
    with set have s: "ssn_hash_table_set_str sc t k v w = (True, t1, w1)" by simp
    have "str_map t1 k \<noteq> None" using str_tab.set_law [OF inv s] by simp
    with True str_tab.get_set_same [OF inv s] str_tab.get_remove [OF i1 rm] str_tab.remove_found [OF i1 rm]
    show ?thesis by simp
  next
    case False
    with set have "ssn_hash_table_set_str sc t k v w = (False, t1, w1)" by simp
    with False str_tab.set_fails [OF inv] show ?thesis by simp
  qed
  show "\<forall>k'. k' \<noteq> k \<longrightarrow> ssn_hash_table_get_str t1 k' = ssn_hash_table_get_str t k' \<and>
        ssn_hash_table_get_str t2 k' = ssn_hash_table_get_str t k'"
    using str_tab.get_set_other [OF inv set] str_tab.get_remove [OF i1 rm] by simp
  show "\<forall>i. i \<noteq> 0 \<longrightarrow> ssn_hash_table_get t2 i = ssn_hash_table_get t i"
    using set_str_refines(2) [OF inv set] remove_str_refines(2) [OF i1 rm] inv i2
    by (simp add: get_refines)
  show "ht_size t1 = card (dom (ht_map t1))" using i1 by (rule ht_size_map)
qed

definition empty_table :: "nat \<Rightarrow> 'v ssn_hash_table" where
  "empty_table c = \<lparr>buckets = replicate c [], capacity = c, ht_size = 0\<rparr>"

lemma empty_table_inv [simp]: "0 < c \<Longrightarrow> ht_inv (empty_table c)"
  by (simp add: empty_table_def ht_inv_def)

theorem string_keys_correct_witness:
  "\<exists>t1 w1 t2. ssn_hash_table_set_str sc_ideal (empty_table 16) [97] (Some (7 :: nat)) os_init = (True, t1, w1) \<and>
    ssn_hash_table_remove_str t1 [97] = (True, t2) \<and> ht_inv t1 \<and> ht_inv t2 \<and>
    ssn_hash_table_get_str t1 [97] = Some 7 \<and> ssn_hash_table_get_str t2 [97] = None"
proof -
  obtain ok t1 w1 where s: "ssn_hash_table_set_str sc_ideal (empty_table 16) [97] (Some (7 :: nat)) os_init = (ok, t1, w1)"
    by (metis prod_cases3)
  obtain r t2 where r: "ssn_hash_table_remove_str t1 [97] = (r, t2)" by fastforce
  have "fst (ssn_hash_table_set_str sc_ideal (empty_table 16) [97] (Some (7 :: nat)) os_init)" by code_simp
  with s have ok by simp
  with string_keys_correct [OF empty_table_inv s r] s r show ?thesis by simp
qed



definition fill :: "bytes option \<Rightarrow> u64 list \<Rightarrow> nat ssn_hash_table \<Rightarrow> nat ssn_hash_table" where
  "fill junk ks t = fold (\<lambda>k t. fst (snd (ssn_hash_table_set sc_ideal junk t k (Some (unat k)) os_init))) ks t"


end
