(* ===== verification/Ssn_Transport_Factory.thy ===== *)
theory Ssn_Transport_Factory
  imports Ssn_Transport Ssn_Hash_Table
begin

text \<open>
  The transport factory of \<^verbatim>\<open>transports/ssn_transport_factory.c\<close> and the \<^verbatim>\<open>accept\<close> functions of
  the adapters, which create the client's transport through it.

  The global \<^verbatim>\<open>g_factory\<close> is an option of the table of creators, threaded with the operating
  system state; a creator is a function pointer, here the name of the function. The argument
  \<open>junk\<close> is the memory \<^verbatim>\<open>malloc\<close> returns for table nodes (see \<open>Ssn_Hash_Table\<close>). The
  dispatch functions call the adapter that \<^verbatim>\<open>transport->ops\<close> belongs to; every adapter fills
  every entry, so the tests for a missing entry never fail.
\<close>

section \<open>Creators\<close>

datatype transport_creator =
    Factory_create_unix | Factory_create_tcp | Factory_create_tcp6 | Factory_create_udp
  | Factory_create_udp6

fun run_creator :: "syscalls \<Rightarrow> transport_creator \<Rightarrow> ssn_transport_config option \<Rightarrow> os \<Rightarrow>
    ssn_transport option \<times> os" where
  "run_creator sc Factory_create_unix config w = unix_transport_create sc config w"
| "run_creator sc Factory_create_tcp config w = tcp_transport_create sc config False w"
| "run_creator sc Factory_create_tcp6 config w = tcp_transport_create sc config True w"
| "run_creator sc Factory_create_udp config w = udp_transport_create sc config False w"
| "run_creator sc Factory_create_udp6 config w = udp_transport_create sc config True w"

type_synonym transport_factory = "transport_creator ssn_hash_table option"

text \<open>The enumeration value of a transport type.\<close>

fun type_code :: "ssn_transport_type \<Rightarrow> u64" where
  "type_code SSN_TRANSPORT_UNIX = 0"
| "type_code SSN_TRANSPORT_TCP = 1"
| "type_code SSN_TRANSPORT_TCP6 = 2"
| "type_code SSN_TRANSPORT_UDP = 3"
| "type_code SSN_TRANSPORT_UDP6 = 4"
| "type_code SSN_TRANSPORT_TLS = 5"
| "type_code SSN_TRANSPORT_DTLS = 6"

definition factory_entries :: "(ssn_transport_type \<times> transport_creator) list" where
  "factory_entries =
     [(SSN_TRANSPORT_UNIX, Factory_create_unix), (SSN_TRANSPORT_TCP, Factory_create_tcp),
      (SSN_TRANSPORT_TCP6, Factory_create_tcp6), (SSN_TRANSPORT_UDP, Factory_create_udp),
      (SSN_TRANSPORT_UDP6, Factory_create_udp6)]"

definition factory_register ::
  "syscalls \<Rightarrow> bytes option \<Rightarrow> (ssn_transport_type \<times> transport_creator) list \<Rightarrow>
   transport_creator ssn_hash_table \<times> os \<Rightarrow> transport_creator ssn_hash_table \<times> os" where
  "factory_register sc junk es tw =
     fold (\<lambda>(ty, c) (t, w). snd (ssn_hash_table_set sc junk t (type_code ty + 1) (Some c) w)) es tw"

text \<open>The table is asked for 16 buckets, for which \<^verbatim>\<open>default_capacity\<close> returns.\<close>

definition ssn_transport_factory_init ::
  "syscalls \<Rightarrow> bytes option \<Rightarrow> transport_factory \<Rightarrow> os \<Rightarrow> bool \<times> transport_factory \<times> os" where
  "ssn_transport_factory_init sc junk g w = (case g of
       Some t \<Rightarrow> (True, g, w)
     | None \<Rightarrow> (case os_calloc sc w of
         (False, w) \<Rightarrow> (False, None, w)
       | (True, w) \<Rightarrow> (case os_calloc sc w of
           (False, w) \<Rightarrow> (False, None, w)
         | (True, w) \<Rightarrow> (case ssn_hash_table_create sc 16 w of
             None \<Rightarrow> (False, None, w)
           | Some (None, w) \<Rightarrow> (False, None, w)
           | Some (Some t, w) \<Rightarrow>
               (case factory_register sc junk factory_entries (t, w) of
                  (t, w) \<Rightarrow> (True, Some t, w))))))"

definition ssn_transport_factory_create ::
  "syscalls \<Rightarrow> bytes option \<Rightarrow> ssn_transport_type \<Rightarrow> ssn_transport_config option \<Rightarrow>
   transport_factory \<Rightarrow> os \<Rightarrow> ssn_transport option \<times> transport_factory \<times> os" where
  "ssn_transport_factory_create sc junk ty config g w =
     (case ssn_transport_factory_init sc junk g w of
        (True, Some t, w) \<Rightarrow>
          (case ssn_hash_table_get t (type_code ty + 1) of
             None \<Rightarrow> (None, Some t, w)
           | Some c \<Rightarrow> (case run_creator sc c config w of (r, w) \<Rightarrow> (r, Some t, w)))
      | (_, g, w) \<Rightarrow> (None, g, w))"

definition ssn_transport_create ::
  "syscalls \<Rightarrow> bytes option \<Rightarrow> ssn_transport_type \<Rightarrow> ssn_transport_config option \<Rightarrow>
   transport_factory \<Rightarrow> os \<Rightarrow> ssn_transport option \<times> transport_factory \<times> os" where
  "ssn_transport_create sc junk ty config g w = ssn_transport_factory_create sc junk ty config g w"

section \<open>Dispatch\<close>

definition ssn_transport_destroy :: "ssn_transport \<Rightarrow> os \<Rightarrow> os" where
  "ssn_transport_destroy t w = (case tr_ops t of
       Unix_ops \<Rightarrow> unix_transport_destroy t w
     | Tcp_ops \<Rightarrow> tcp_transport_destroy t w
     | Udp_ops \<Rightarrow> udp_transport_destroy t w)"

definition ssn_transport_bind :: "ssn_transport \<Rightarrow> ssn_address \<Rightarrow> ssn_transport" where
  "ssn_transport_bind t a = (case tr_ops t of
       Unix_ops \<Rightarrow> unix_transport_bind t a
     | Tcp_ops \<Rightarrow> tcp_transport_bind t a
     | Udp_ops \<Rightarrow> udp_transport_bind t a)"

definition ssn_transport_connect ::
  "syscalls \<Rightarrow> ssn_transport \<Rightarrow> ssn_address \<Rightarrow> int \<Rightarrow> os \<Rightarrow> bool \<times> ssn_transport \<times> os" where
  "ssn_transport_connect sc t a ms w = (case tr_ops t of
       Unix_ops \<Rightarrow> unix_transport_connect sc t a ms w
     | Tcp_ops \<Rightarrow> tcp_transport_connect sc t a ms w
     | Udp_ops \<Rightarrow> udp_transport_connect sc t a ms w)"

definition ssn_transport_disconnect :: "ssn_transport \<Rightarrow> os \<Rightarrow> bool \<times> ssn_transport \<times> os" where
  "ssn_transport_disconnect t w = (case tr_ops t of
       Unix_ops \<Rightarrow> unix_transport_disconnect t w
     | Tcp_ops \<Rightarrow> tcp_transport_disconnect t w
     | Udp_ops \<Rightarrow> udp_transport_disconnect t w)"

definition ssn_transport_is_connected :: "ssn_transport option \<Rightarrow> bool" where
  "ssn_transport_is_connected t = (case t of None \<Rightarrow> False | Some t \<Rightarrow> transport_fd_open t)"

definition ssn_transport_send :: "syscalls \<Rightarrow> ssn_transport \<Rightarrow> bytes \<Rightarrow> os \<Rightarrow> int \<times> ssn_transport \<times> os" where
  "ssn_transport_send sc t data w = (case tr_ops t of
       Unix_ops \<Rightarrow> unix_transport_send sc t data w
     | Tcp_ops \<Rightarrow> tcp_transport_send sc t data w
     | Udp_ops \<Rightarrow> udp_transport_send sc t data w)"

definition ssn_transport_recv ::
  "syscalls \<Rightarrow> ssn_transport \<Rightarrow> nat \<Rightarrow> int \<Rightarrow> os \<Rightarrow> int \<times> bytes \<times> ssn_transport \<times> os" where
  "ssn_transport_recv sc t sz ms w = (case tr_ops t of
       Unix_ops \<Rightarrow> unix_transport_recv sc t sz ms w
     | Tcp_ops \<Rightarrow> tcp_transport_recv sc t sz ms w
     | Udp_ops \<Rightarrow> udp_transport_recv sc t sz ms w)"

definition ssn_transport_listen :: "syscalls \<Rightarrow> ssn_transport \<Rightarrow> os \<Rightarrow> bool \<times> ssn_transport \<times> os" where
  "ssn_transport_listen sc t w = (case tr_ops t of
       Unix_ops \<Rightarrow> unix_transport_listen sc t w
     | Tcp_ops \<Rightarrow> tcp_transport_listen sc t w
     | Udp_ops \<Rightarrow> udp_transport_listen sc t w)"

definition ssn_transport_get_option :: "ssn_transport option \<Rightarrow> int \<Rightarrow> int option" where
  "ssn_transport_get_option t opt = (case t of None \<Rightarrow> None | Some t \<Rightarrow> transport_get_option t opt)"

definition ssn_transport_set_option :: "ssn_transport option \<Rightarrow> int \<Rightarrow> bool" where
  "ssn_transport_set_option t opt = (case t of None \<Rightarrow> False | Some t \<Rightarrow> transport_set_option t opt)"

definition ssn_transport_get_stats :: "ssn_transport option \<Rightarrow> ssn_transport_stats option" where
  "ssn_transport_get_stats t = map_option tr_stats t"

definition ssn_transport_get_address :: "resolver \<Rightarrow> ssn_transport option \<Rightarrow> ssn_address option" where
  "ssn_transport_get_address res t = (case t of
       None \<Rightarrow> None
     | Some t \<Rightarrow> Some (case tr_ops t of
           Unix_ops \<Rightarrow> unix_transport_get_address t
         | Tcp_ops \<Rightarrow> tcp_transport_get_address res t
         | Udp_ops \<Rightarrow> udp_transport_get_address res t))"

section \<open>Accept\<close>

text \<open>Waiting for a connection: no wait when the timeout is 0.\<close>

definition accept_wait :: "syscalls \<Rightarrow> ssn_transport \<Rightarrow> int \<Rightarrow> os \<Rightarrow> bool \<times> os" where
  "accept_wait sc t ms w =
     (if ms > 0 then (case os_select sc (tr_fd t) w of (ret, w) \<Rightarrow> (ret > 0, w)) else (True, w))"

text \<open>The steps the unix and tcp adapters share: the client's transport is created with the
  listener's configuration, its own descriptor is closed, and the accepted one takes its place.\<close>

definition accept_stream ::
  "syscalls \<Rightarrow> bytes option \<Rightarrow> ssn_transport_type \<Rightarrow> (sockaddr \<Rightarrow> ssn_transport \<Rightarrow> ssn_transport) \<Rightarrow>
   ssn_transport \<Rightarrow> int \<Rightarrow> transport_factory \<Rightarrow> os \<Rightarrow>
   (ssn_transport \<times> sockaddr) option \<times> transport_factory \<times> os" where
  "accept_stream sc junk ty finish t ms g w =
     (if \<not> tr_valid t \<or> tr_fd t < 0 then (None, g, w)
      else case accept_wait sc t ms w of
        (False, w) \<Rightarrow> (None, g, w)
      | (True, w) \<Rightarrow> (case os_accept sc (tr_fd t) w of (client_fd, peer, w) \<Rightarrow>
          if client_fd < 0 then (None, g, w)
          else
            let config = (tr_config t)\<lparr>cfg_non_blocking := impl_non_blocking (tr_impl t)\<rparr> in
            (case ssn_transport_create sc junk ty (Some config) g w of
               (None, g, w) \<Rightarrow> (None, g, os_close client_fd w)
             | (Some c, g, w) \<Rightarrow> (case close_fd c w of (c, w) \<Rightarrow>
                 (Some (finish peer (c\<lparr>tr_impl := (tr_impl c)\<lparr>sock_fd := client_fd, is_server := False\<rparr>\<rparr>),
                        peer), g, w)))))"

definition unix_transport_accept ::
  "syscalls \<Rightarrow> bytes option \<Rightarrow> ssn_transport \<Rightarrow> int \<Rightarrow> transport_factory \<Rightarrow> os \<Rightarrow>
   (ssn_transport \<times> sockaddr) option \<times> transport_factory \<times> os" where
  "unix_transport_accept sc junk t ms g w =
     accept_stream sc junk SSN_TRANSPORT_UNIX
       (\<lambda>peer c. c\<lparr>tr_impl := (tr_impl c)\<lparr>impl_addr := peer\<rparr>\<rparr>) t ms g w"

definition tcp_transport_accept ::
  "syscalls \<Rightarrow> bytes option \<Rightarrow> ssn_transport \<Rightarrow> int \<Rightarrow> transport_factory \<Rightarrow> os \<Rightarrow>
   (ssn_transport \<times> sockaddr) option \<times> transport_factory \<times> os" where
  "tcp_transport_accept sc junk t ms g w =
     accept_stream sc junk (if ipv6_enabled (tr_impl t) then SSN_TRANSPORT_TCP6 else SSN_TRANSPORT_TCP)
       (\<lambda>peer c. c\<lparr>tr_impl := (tr_impl c)\<lparr>ipv6_enabled := ipv6_enabled (tr_impl t)\<rparr>\<rparr>) t ms g w"

text \<open>\<^verbatim>\<open>udp_transport_accept\<close> fails when an address is asked for, and is the listener otherwise.\<close>

definition udp_transport_accept :: "ssn_transport \<Rightarrow> bool \<Rightarrow> ssn_transport option" where
  "udp_transport_accept t want_addr =
     (if \<not> tr_valid t \<or> tr_fd t < 0 then None else if want_addr then None else Some t)"

definition accept_addr :: "resolver \<Rightarrow> transport_ops \<Rightarrow> sockaddr \<Rightarrow> ssn_address" where
  "accept_addr res ops peer =
     (let ty = (case ops of
          Unix_ops \<Rightarrow> SSN_TRANSPORT_UNIX
        | _ \<Rightarrow> (case peer of Sockaddr_in6 _ _ \<Rightarrow> SSN_TRANSPORT_TCP6 | _ \<Rightarrow> SSN_TRANSPORT_TCP))
      in \<lparr>addr_type = ty, addr_sock = peer,
          address_str = take (SSN_TRANSPORT_MAX_ADDRESS_LEN - 1)
            (sock_string res (ssn_transport_type_to_string ty) peer)\<rparr>)"

text \<open>\<^verbatim>\<open>ssn_transport_accept\<close> with an address asked for, as the server calls it.\<close>

definition ssn_transport_accept ::
  "syscalls \<Rightarrow> resolver \<Rightarrow> bytes option \<Rightarrow> ssn_transport \<Rightarrow> int \<Rightarrow> transport_factory \<Rightarrow> os \<Rightarrow>
   (ssn_transport \<times> ssn_address) option \<times> transport_factory \<times> os" where
  "ssn_transport_accept sc res junk t ms g w = (case tr_ops t of
       Unix_ops \<Rightarrow> (case unix_transport_accept sc junk t ms g w of (r, gw) \<Rightarrow>
         (map_option (map_prod id (accept_addr res Unix_ops)) r, gw))
     | Tcp_ops \<Rightarrow> (case tcp_transport_accept sc junk t ms g w of (r, gw) \<Rightarrow>
         (map_option (map_prod id (accept_addr res Tcp_ops)) r, gw))
     | Udp_ops \<Rightarrow> (map_option (\<lambda>c. (c, accept_addr res Udp_ops (local_addr c))) (udp_transport_accept t True), g, w))"

section \<open>What the factory creates\<close>

definition factory_ok :: "transport_factory \<Rightarrow> bool" where
  "factory_ok g = (case g of
       None \<Rightarrow> True
     | Some t \<Rightarrow> ht_inv t \<and>
         (\<forall>ty c. ssn_hash_table_get t (type_code ty + 1) = Some c \<longrightarrow> (ty, c) \<in> set factory_entries))"

lemma type_code_inject: "type_code a = type_code b \<longleftrightarrow> a = b"
  by (cases a; cases b) simp_all

lemma type_code_nonzero: "type_code a + 1 \<noteq> 0"
  by (cases a) simp_all

lemma factory_register_ok:
  assumes "ht_inv t" "factory_register sc None es (t, w) = (t', w')"
    "\<forall>ty c. ssn_hash_table_get t (type_code ty + 1) = Some c \<longrightarrow> (ty, c) \<in> E" "set es \<subseteq> E"
  shows "ht_inv t' \<and> same_io w w' \<and>
    (\<forall>ty c. ssn_hash_table_get t' (type_code ty + 1) = Some c \<longrightarrow> (ty, c) \<in> E)"
  using assms
proof (induction es arbitrary: t w)
  case (Cons e es)
  obtain ty c where e: "e = (ty, c)" by (cases e)
  obtain ok t1 w1 where s: "ssn_hash_table_set sc None t (type_code ty + 1) (Some c) w = (ok, t1, w1)"
    by (metis prod_cases3)
  note r = set_refines [OF Cons.prems(1) s]
  have "\<forall>ty c. ssn_hash_table_get t1 (type_code ty + 1) = Some c \<longrightarrow> (ty, c) \<in> E"
    using Cons.prems(3,4) r
    by (auto simp: get_refines [OF _ type_code_nonzero] Cons.prems(1) e type_code_inject split: if_splits)
  moreover have "factory_register sc None es (t1, w1) = (t', w')"
    using Cons.prems(2) by (simp add: factory_register_def e s)
  ultimately have "ht_inv t' \<and> same_io w1 w' \<and>
      (\<forall>ty c. ssn_hash_table_get t' (type_code ty + 1) = Some c \<longrightarrow> (ty, c) \<in> E)"
    using Cons.IH [OF r(1)] Cons.prems(4) by simp
  then show ?case using set_frame [OF s] same_io_trans by blast
qed (simp add: factory_register_def)


lemma factory_register_frame:
  "factory_register sc junk es (t, w) = (t', w') \<Longrightarrow> same_io w w'"
proof (induction es arbitrary: t w)
  case (Cons e es)
  obtain ty c where e: "e = (ty, c)" by (cases e)
  obtain ok t1 w1 where s: "ssn_hash_table_set sc junk t (type_code ty + 1) (Some c) w = (ok, t1, w1)"
    by (metis prod_cases3)
  with Cons.prems e have "factory_register sc junk es (t1, w1) = (t', w')"
    by (simp add: factory_register_def)
  from Cons.IH [OF this] set_frame [OF s] show ?case using same_io_trans by blast
qed (simp add: factory_register_def)

lemma factory_init_frame:
  "ssn_transport_factory_init sc junk g w = (ok, g', w') \<Longrightarrow> same_io w w'"
  by (fastforce simp: ssn_transport_factory_init_def os_calloc_def same_io_def
      split: option.splits bool.splits prod.splits dest: create_frame factory_register_frame)

lemma empty_map_no_creator:
  "ht_inv t \<Longrightarrow> ht_map t = Map.empty \<Longrightarrow> ssn_hash_table_get t (type_code ty + 1) = None"
  by (simp add: get_refines [OF _ type_code_nonzero])

lemma factory_init_ok:
  assumes ok: "factory_ok g" and i: "ssn_transport_factory_init sc None g w = (b, g', w')"
  shows "factory_ok g'"
proof (cases g)
  case None
  have "factory_ok (Some t2)" if "ssn_hash_table_create sc 16 w1 = Some (Some t, w2)"
    "factory_register sc None factory_entries (t, w2) = (t2, w3)" for w1 t w2 t2 w3
  proof -
    have t: "ht_inv t" "ht_map t = Map.empty"
      using create_Some [OF _ that(1)] by simp_all
    have "ht_inv t2 \<and> same_io w2 w3 \<and>
        (\<forall>ty c. ssn_hash_table_get t2 (type_code ty + 1) = Some c \<longrightarrow> (ty, c) \<in> set factory_entries)"
      by (rule factory_register_ok [OF t(1) that(2)]) (simp_all add: empty_map_no_creator t)
    then show ?thesis by (simp add: factory_ok_def)
  qed
  moreover have "factory_ok None" by (simp add: factory_ok_def)
  ultimately show ?thesis
    using i None by (auto simp: ssn_transport_factory_init_def split: bool.splits option.splits prod.splits)
qed (use assms in \<open>simp add: ssn_transport_factory_init_def\<close>)

lemma creator_result:
  assumes "syscalls_ok sc" "run_creator sc c config w = (r, w')"
  shows "case r of
      None \<Rightarrow> set (os_open w') = set (os_open w)
    | Some t \<Rightarrow> set (os_open w') = set (os_open w) \<union> fds t \<and> fds t \<noteq> {} \<and>
        fds t \<inter> set (os_open w) = {} \<and> tr_valid t \<and> os_nonblock w' = os_nonblock w"
  using assms transport_create_fds [OF assms(1)]
  by (cases c) (fastforce simp: unix_transport_create_def tcp_transport_create_def udp_transport_create_def
      split: option.splits)+

lemma create_result:
  assumes ok: "syscalls_ok sc" and c: "ssn_transport_create sc junk ty config g w = (r, g', w')"
  shows "case r of
      None \<Rightarrow> set (os_open w') = set (os_open w)
    | Some t \<Rightarrow> set (os_open w') = set (os_open w) \<union> fds t \<and> fds t \<noteq> {} \<and>
        fds t \<inter> set (os_open w) = {} \<and> tr_valid t \<and> os_nonblock w' = os_nonblock w"
proof -
  obtain b g1 w1 where i: "ssn_transport_factory_init sc junk g w = (b, g1, w1)"
    by (metis prod_cases3)
  have w1: "os_open w1 = os_open w" "os_nonblock w1 = os_nonblock w"
    using factory_init_frame [OF i] by (simp_all add: same_io_def)
  have c': "(case (b, g1) of
      (True, Some t) \<Rightarrow>
        (case ssn_hash_table_get t (type_code ty + 1) of
           None \<Rightarrow> (None, Some t, w1)
         | Some c \<Rightarrow> (case run_creator sc c config w1 of (r, w) \<Rightarrow> (r, Some t, w)))
    | _ \<Rightarrow> (None, g1, w1)) = (r, g', w')"
    using c i unfolding ssn_transport_create_def ssn_transport_factory_create_def
    by (auto split: bool.splits option.splits)
  show ?thesis
  proof (cases "\<exists>cr. run_creator sc cr config w1 = (r, w')")
    case True
    then obtain cr where "run_creator sc cr config w1 = (r, w')" by blast
    from creator_result [OF ok this] show ?thesis by (simp only: w1)
  next
    case False
    with c' have "r = None \<and> w' = w1"
      by (fastforce split: bool.splits option.splits prod.splits)
    then show ?thesis by (simp add: w1)
  qed
qed

interpretation tr: fd_owner ssn_transport_connect ssn_transport_disconnect ssn_transport_destroy
proof unfold_locales
  fix sc t a ms w ok t' w'
  assume "syscalls_ok sc" "ssn_transport_connect sc t a ms w = (ok, t', w')"
  then show "set (os_open w') = set (os_open w) - fds t \<union> fds t' \<and>
      fds t' \<inter> (set (os_open w) - fds t) = {} \<and> ok = (fds t' \<noteq> {})"
    using unix_tr.connect_fds tcp_tr.connect_fds udp_tr.connect_fds
    by (cases "tr_ops t") (simp_all add: ssn_transport_connect_def)
next
  fix t w ok t' w'
  assume "ssn_transport_disconnect t w = (ok, t', w')"
  then show "set (os_open w') = set (os_open w) - fds t \<and> fds t' = {}"
    using unix_tr.disconnect_fds tcp_tr.disconnect_fds udp_tr.disconnect_fds
    by (cases "tr_ops t") (simp_all add: ssn_transport_disconnect_def)
next
  fix t w
  show "set (os_open (ssn_transport_destroy t w)) = set (os_open w) - fds t"
    by (cases "tr_ops t")
      (simp_all add: ssn_transport_destroy_def unix_tr.destroy_fds tcp_tr.destroy_fds udp_tr.destroy_fds)
qed


lemma close_fd_nonblock: "close_fd t w = (t', w') \<Longrightarrow> set (os_nonblock w') \<subseteq> set (os_nonblock w)"
  by (auto simp: close_fd_def os_close_def split: if_splits)

lemma close_fd_impl: "close_fd t w = (t', w') \<Longrightarrow> impl_non_blocking (tr_impl t') = impl_non_blocking (tr_impl t)"
  by (auto simp: close_fd_def split: if_splits)

lemma accept_wait_io: "accept_wait sc t ms w = (b, w') \<Longrightarrow> same_io w w'"
  by (auto simp: accept_wait_def os_select_def split: if_splits)

lemma accepted_fd:
  "syscalls_ok sc \<Longrightarrow> sc_accept sc n fs l = Inr x \<Longrightarrow> 0 \<le> x"
  "syscalls_ok sc \<Longrightarrow> sc_accept sc n fs l = Inr x \<Longrightarrow> x \<notin> set fs"
  unfolding syscalls_ok_def by blast+

lemma accept_stream_result:
  assumes ok: "syscalls_ok sc" and fin: "\<And>peer c. tr_fd (finish peer c) = tr_fd c"
    and a: "accept_stream sc junk ty finish t ms g w = (r, g', w')"
  shows "case r of
      None \<Rightarrow> set (os_open w') = set (os_open w)
    | Some (c, peer) \<Rightarrow> set (os_open w') = set (os_open w) \<union> fds c \<and> fds c \<noteq> {} \<and>
        fds c \<inter> set (os_open w) = {} \<and> set (os_nonblock w') \<subseteq> set (os_nonblock w)"
proof (cases "\<not> tr_valid t \<or> tr_fd t < 0")
  case False
  obtain b w1 where w: "accept_wait sc t ms w = (b, w1)" by fastforce
  have w1: "os_open w1 = os_open w" "os_nonblock w1 = os_nonblock w"
    using accept_wait_io [OF w] by (simp_all add: same_io_def)
  obtain fd peer w2 where acc: "os_accept sc (tr_fd t) w1 = (fd, peer, w2)" by (metis prod_cases3)
  show ?thesis
  proof (cases "b \<and> 0 \<le> fd")
    case True
    have w2: "os_open w2 = fd # os_open w" "fd \<notin> set (os_open w)" "os_nonblock w2 = os_nonblock w"
      using acc True accepted_fd [OF ok] w1
      by (auto simp: os_accept_def split: sum.splits)
    let ?config = "(tr_config t)\<lparr>cfg_non_blocking := impl_non_blocking (tr_impl t)\<rparr>"
    obtain c g3 w3 where cr: "ssn_transport_create sc junk ty (Some ?config) g w2 = (c, g3, w3)"
      by (metis prod_cases3)
    note cres = create_result [OF ok cr]
    show ?thesis
    proof (cases c)
      case None
      with cres w2 a False w True acc cr show ?thesis
        by (auto simp: accept_stream_def Let_def os_close_def)
    next
      case (Some c0)
      obtain c1 w4 where cl: "close_fd c0 w3 = (c1, w4)" by fastforce
      have o4: "set (os_open w4) = insert fd (set (os_open w))"
        using close_fd_fds [OF cl] cres Some w2 by auto
      have n4: "set (os_nonblock w4) \<subseteq> set (os_nonblock w)"
        using close_fd_nonblock [OF cl] cres Some w2 by simp
      show ?thesis
        using a False w True acc cr Some cl o4 n4 w2
        by (auto simp: accept_stream_def Let_def fds_def fin)
    qed
  next
    case F: False
    have "set (os_open w2) = set (os_open w)" if "fd < 0"
      using acc that w1 by (fastforce simp: os_accept_def split: sum.splits dest: accepted_fd(1) [OF ok])
    with F a False w acc w1 show ?thesis
      by (cases b) (auto simp: accept_stream_def Let_def split: if_splits)
  qed
qed (use a in \<open>auto simp: accept_stream_def\<close>)

lemma accept_result:
  assumes ok: "syscalls_ok sc" and a: "ssn_transport_accept sc res junk t ms g w = (r, g', w')"
  shows "case r of
      None \<Rightarrow> set (os_open w') = set (os_open w)
    | Some (c, ad) \<Rightarrow> set (os_open w') = set (os_open w) \<union> fds c \<and> fds c \<noteq> {} \<and>
        fds c \<inter> set (os_open w) = {}"
proof (cases "tr_ops t")
  case Unix_ops
  obtain r0 gw where u: "unix_transport_accept sc junk t ms g w = (r0, gw)" by (metis prod.exhaust)
  with a Unix_ops have g: "gw = (g', w')" and r: "r = map_option (map_prod id (accept_addr res Unix_ops)) r0"
    by (simp_all add: ssn_transport_accept_def)
  have "tr_fd (c\<lparr>tr_impl := (tr_impl c)\<lparr>impl_addr := peer\<rparr>\<rparr>) = tr_fd c" for c peer by simp
  from accept_stream_result [OF ok this u [unfolded unix_transport_accept_def g]] show ?thesis
    by (auto simp: r split: option.splits)
next
  case Tcp_ops
  obtain r0 gw where u: "tcp_transport_accept sc junk t ms g w = (r0, gw)" by (metis prod.exhaust)
  with a Tcp_ops have g: "gw = (g', w')" and r: "r = map_option (map_prod id (accept_addr res Tcp_ops)) r0"
    by (simp_all add: ssn_transport_accept_def)
  from accept_stream_result [OF ok _ u [unfolded tcp_transport_accept_def g]] show ?thesis
    by (auto simp: r split: option.splits)
next
  case Udp_ops
  with a show ?thesis by (auto simp: ssn_transport_accept_def udp_transport_accept_def)
qed

lemma recv_keeps:
  assumes "ssn_transport_recv sc t sz ms w = (n, bs, t', w')"
  shows "tr_impl t' = tr_impl t \<and> tr_valid t' = tr_valid t \<and> tr_ops t' = tr_ops t \<and> same_io w w'"
proof -
  have "tr_impl t' = tr_impl t \<and> tr_valid t' = tr_valid t \<and> tr_ops t' = tr_ops t \<and> same_io w w'"
    if "stream_recv sc t sz ms w = (n, bs, t', w')"
    using that by (auto simp: stream_recv_def os_recv_def split: if_splits sum.splits)
  with assms show ?thesis
    by (cases "tr_ops t") (simp_all add: ssn_transport_recv_def unix_transport_recv_def tcp_transport_recv_def udp_transport_recv_def)
qed

section \<open>Properties\<close>

text \<open>C6. No descriptor leaks: a transport of any type, connected and disconnected any number of
  times with calls that succeed or fail at any point, leaves the process with exactly the
  descriptors it had before the transport was created once it is destroyed. In between it owns at
  most one descriptor besides them.\<close>

theorem transport_no_fd_leak:
  assumes ok: "syscalls_ok sc"
    and create: "ssn_transport_create sc junk ty config g w = (Some t, g', w1)"
    and acts: "fold (run_act ssn_transport_connect ssn_transport_disconnect sc) as (t, w1) = (t2, w2)"
  shows "set (os_open w2) - fds t2 = set (os_open w) \<and>
    set (os_open (ssn_transport_destroy t2 w2)) = set (os_open w)"
proof -
  have "set (os_open w1) - fds t = set (os_open w)"
    using create_result [OF ok create] by auto
  with tr.acts_keep_others [OF ok acts] tr.acts_then_destroy [OF ok acts] show ?thesis by simp
qed

definition unix_addr :: "string \<Rightarrow> ssn_address" where
  "unix_addr p = \<lparr>addr_type = SSN_TRANSPORT_UNIX, addr_sock = Sockaddr_un p, address_str = ''unix://'' @ p\<rparr>"

definition witness_unix :: "ssn_transport \<times> transport_factory \<times> os" where
  "witness_unix = (case ssn_transport_create sc_ideal None SSN_TRANSPORT_UNIX None None os_init of
     (r, g, w) \<Rightarrow> (the r, g, w))"

lemma witness_unix_created:
  "ssn_transport_create sc_ideal None SSN_TRANSPORT_UNIX None None os_init =
     (Some (fst witness_unix), fst (snd witness_unix), snd (snd witness_unix))"
proof -
  have "fst (ssn_transport_create sc_ideal None SSN_TRANSPORT_UNIX None None os_init) \<noteq> None"
    by code_simp
  then show ?thesis by (auto simp: witness_unix_def split: prod.splits)
qed

theorem transport_no_fd_leak_witness:
  "\<exists>t2 w2. fold (run_act ssn_transport_connect ssn_transport_disconnect sc_ideal)
      [Act_connect (unix_addr ''/s'') 0, Act_disconnect, Act_connect (unix_addr ''/s'') 0]
      (fst witness_unix, snd (snd witness_unix)) = (t2, w2) \<and>
    set (os_open (ssn_transport_destroy t2 w2)) = {}"
proof -
  obtain t2 w2 where r: "fold (run_act ssn_transport_connect ssn_transport_disconnect sc_ideal)
      [Act_connect (unix_addr ''/s'') 0, Act_disconnect, Act_connect (unix_addr ''/s'') 0]
      (fst witness_unix, snd (snd witness_unix)) = (t2, w2)"
    by fastforce
  from transport_no_fd_leak [OF sc_ideal_ok witness_unix_created r]
  have "set (os_open (ssn_transport_destroy t2 w2)) = {}" by (simp add: os_init_def)
  with r show ?thesis by blast
qed






text \<open>C32. Finding: the comment of the server says its clients' sockets are non-blocking, but
  \<^verbatim>\<open>accept\<close> never sets the mode on the accepted descriptor: the client's transport carries the
  \<^verbatim>\<open>non_blocking\<close> flag of the listener while its descriptor is not in non-blocking mode.\<close>

theorem accepted_socket_blocking:
  assumes ok: "syscalls_ok sc" and nb: "set (os_nonblock w) \<subseteq> set (os_open w)"
    and u: "unix_transport_accept sc junk t ms g w = (Some (c, peer), g', w')"
  shows "fds c \<noteq> {} \<and> fds c \<inter> set (os_nonblock w') = {}"
proof -
  have "tr_fd (c\<lparr>tr_impl := (tr_impl c)\<lparr>impl_addr := peer\<rparr>\<rparr>) = tr_fd c" for c peer by simp
  from accept_stream_result [OF ok this u [unfolded unix_transport_accept_def]] nb show ?thesis by auto
qed

definition nonblocking_config :: ssn_transport_config where
  "nonblocking_config = zero_config\<lparr>cfg_non_blocking := True\<rparr>"

theorem accepted_socket_blocking_witness:
  "\<exists>c peer g w. unix_transport_accept sc_ideal None
      (the (fst (unix_transport_create sc_ideal (Some nonblocking_config) os_init))) 0 None
      (snd (unix_transport_create sc_ideal (Some nonblocking_config) os_init)) = (Some (c, peer), g, w) \<and>
    impl_non_blocking (tr_impl c) \<and> fds c \<inter> set (os_nonblock w) = {}"
proof -
  let ?l = "unix_transport_create sc_ideal (Some nonblocking_config) os_init"
  let ?a = "unix_transport_accept sc_ideal None (the (fst ?l)) 0 None (snd ?l)"
  obtain r g w where a: "?a = (r, g, w)" by (metis prod_cases3)
  have n: "case fst ?a of None \<Rightarrow> False | Some (c, peer) \<Rightarrow> impl_non_blocking (tr_impl c)" by code_simp
  with a obtain c peer where r: "r = Some (c, peer)" "impl_non_blocking (tr_impl c)"
    by (auto split: option.splits)
  have "os_nonblock (snd ?l) = []" by code_simp
  with accepted_socket_blocking [OF sc_ideal_ok _ a [unfolded r(1)]] have "fds c \<inter> set (os_nonblock w) = {}"
    by simp
  with a r show ?thesis by blast
qed

end
