(* ===== verification/Ssn_Frame.thy ===== *)
theory Ssn_Frame
  imports Ssn_Transport_Factory "HOL-Library.Code_Target_Nat"
begin

text \<open>
  Frames: the packed header of \<^verbatim>\<open>ssn_frame.h\<close> and its accessors, \<^verbatim>\<open>ssn_create_header\<close>,
  \<^verbatim>\<open>ssn_get_url\<close>, \<^verbatim>\<open>ssn_get_data\<close>, \<^verbatim>\<open>ssn_packet_input\<close> and \<^verbatim>\<open>ssn_send_message\<close> of
  \<^verbatim>\<open>ssn_frame.c\<close>.

  A header is the record of the values its fields have in memory, multi-byte fields in network
  order as the code keeps them; \<open>store_header\<close> and \<open>load_header\<close> are its 15 packed bytes on a
  little-endian host. A pointer to a header is the list of the bytes from there on. References
  to a URL or to data are a pointer (\<open>None\<close> for \<^verbatim>\<open>NULL\<close>) with a length.
\<close>

section \<open>Constants\<close>

definition SSN_HEADER_SIZE :: nat where "SSN_HEADER_SIZE = 15"
definition SSN_MAX_PACKET_SIZE :: nat where "SSN_MAX_PACKET_SIZE = 131072"
definition SSN_MAX_PAYLOAD_SIZE :: nat where
  "SSN_MAX_PAYLOAD_SIZE = SSN_MAX_PACKET_SIZE - SSN_HEADER_SIZE"
definition SSN_MAGIC_BYTE :: byte where "SSN_MAGIC_BYTE = 0x09"
definition SSN_PROTOCOL_VERSION :: byte where "SSN_PROTOCOL_VERSION = 0x02"

definition SSN_MSG_TYPE_SERVICE_INFO :: byte where "SSN_MSG_TYPE_SERVICE_INFO = 0x00"
definition SSN_MSG_TYPE_RPC_REQUEST :: byte where "SSN_MSG_TYPE_RPC_REQUEST = 0x01"
definition SSN_MSG_TYPE_SUBSCRIBE :: byte where "SSN_MSG_TYPE_SUBSCRIBE = 0x02"
definition SSN_MSG_TYPE_UNSUBSCRIBE :: byte where "SSN_MSG_TYPE_UNSUBSCRIBE = 0x03"
definition SSN_MSG_TYPE_PUBLISH :: byte where "SSN_MSG_TYPE_PUBLISH = 0x04"
definition SSN_MSG_TYPE_MESSAGE :: byte where "SSN_MSG_TYPE_MESSAGE = 0x05"
definition SSN_MSG_TYPE_PING_ECHO :: byte where "SSN_MSG_TYPE_PING_ECHO = 0xFF"

lemmas msg_types = SSN_MSG_TYPE_SERVICE_INFO_def SSN_MSG_TYPE_RPC_REQUEST_def
  SSN_MSG_TYPE_SUBSCRIBE_def SSN_MSG_TYPE_UNSUBSCRIBE_def SSN_MSG_TYPE_PUBLISH_def
  SSN_MSG_TYPE_MESSAGE_def SSN_MSG_TYPE_PING_ECHO_def

lemmas frame_consts = SSN_HEADER_SIZE_def SSN_MAX_PACKET_SIZE_def SSN_MAX_PAYLOAD_SIZE_def

section \<open>Byte order\<close>

definition ssn_htons :: "u16 \<Rightarrow> u16" where
  "ssn_htons x = push_bit 8 x OR drop_bit 8 x"

definition ssn_htonl :: "u32 \<Rightarrow> u32" where
  "ssn_htonl x = push_bit 24 x OR (push_bit 8 x AND 0xFF0000) OR (drop_bit 8 x AND 0xFF00) OR drop_bit 24 x"

definition ssn_ntohs :: "u16 \<Rightarrow> u16" where
  "ssn_ntohs x = ssn_htons x"

definition ssn_ntohl :: "u32 \<Rightarrow> u32" where
  "ssn_ntohl x = ssn_htonl x"

section \<open>Header\<close>

record ssn_header =
  hdr_magic :: byte
  hdr_version :: byte
  hdr_msg_type :: byte
  hdr_status :: u32
  hdr_url_len :: u16
  hdr_seqno :: u16
  hdr_data_len :: u32

definition store_header :: "ssn_header \<Rightarrow> bytes" where
  "store_header h = [hdr_magic h, hdr_version h, hdr_msg_type h] @ le32 (hdr_status h) @
     le16 (hdr_url_len h) @ le16 (hdr_seqno h) @ le32 (hdr_data_len h)"

definition load_header :: "bytes \<Rightarrow> ssn_header" where
  "load_header m = \<lparr>hdr_magic = m ! 0, hdr_version = m ! 1, hdr_msg_type = m ! 2,
     hdr_status = of_le32 (m ! 3) (m ! 4) (m ! 5) (m ! 6),
     hdr_url_len = of_le16 (m ! 7) (m ! 8),
     hdr_seqno = of_le16 (m ! 9) (m ! 10),
     hdr_data_len = of_le32 (m ! 11) (m ! 12) (m ! 13) (m ! 14)\<rparr>"

definition ssn_get_seqno :: "ssn_header \<Rightarrow> u16" where
  "ssn_get_seqno h = ssn_ntohs (hdr_seqno h)"

definition ssn_get_msg_type :: "ssn_header \<Rightarrow> byte" where
  "ssn_get_msg_type h = hdr_msg_type h"

definition ssn_get_status :: "ssn_header \<Rightarrow> u32" where
  "ssn_get_status h = ssn_ntohl (hdr_status h)"

definition ssn_set_status :: "ssn_header \<Rightarrow> u32 \<Rightarrow> ssn_header" where
  "ssn_set_status h s = h\<lparr>hdr_status := ssn_htonl s\<rparr>"

definition ssn_get_url_length :: "ssn_header \<Rightarrow> u16" where
  "ssn_get_url_length h = ssn_ntohs (hdr_url_len h)"

definition ssn_get_data_length :: "ssn_header \<Rightarrow> u32" where
  "ssn_get_data_length h = ssn_ntohl (hdr_data_len h)"

definition ssn_set_seqno :: "ssn_header \<Rightarrow> u16 \<Rightarrow> ssn_header" where
  "ssn_set_seqno h s = h\<lparr>hdr_seqno := ssn_htons s\<rparr>"

definition ssn_set_url_length :: "ssn_header \<Rightarrow> u16 \<Rightarrow> ssn_header" where
  "ssn_set_url_length h n = h\<lparr>hdr_url_len := ssn_htons n\<rparr>"

definition ssn_set_data_length :: "ssn_header \<Rightarrow> u32 \<Rightarrow> ssn_header" where
  "ssn_set_data_length h n = h\<lparr>hdr_data_len := ssn_htonl n\<rparr>"

text \<open>\<^verbatim>\<open>ssn_create_header\<close>: the header it leaves at the start of the output buffer.\<close>

definition ssn_create_header :: "byte \<Rightarrow> u32 \<Rightarrow> u16 \<Rightarrow> ssn_header" where
  "ssn_create_header ty status seqno =
     ssn_set_seqno (ssn_set_status
       \<lparr>hdr_magic = SSN_MAGIC_BYTE, hdr_version = SSN_PROTOCOL_VERSION, hdr_msg_type = ty,
        hdr_status = 0, hdr_url_len = 0, hdr_seqno = 0, hdr_data_len = 0\<rparr> status) seqno"

definition create_header_at :: "bytes \<Rightarrow> byte \<Rightarrow> u32 \<Rightarrow> u16 \<Rightarrow> bytes" where
  "create_header_at outb ty status seqno = memcpy_at outb 0 (store_header (ssn_create_header ty status seqno))"

section \<open>Parsing one packet\<close>

definition validate_and_get_total_length :: "bytes \<Rightarrow> nat \<Rightarrow> nat option" where
  "validate_and_get_total_length buf buf_size =
     (if buf_size < SSN_HEADER_SIZE then None
      else let header = load_header buf in
        if hdr_magic header \<noteq> SSN_MAGIC_BYTE \<or> hdr_version header \<noteq> SSN_PROTOCOL_VERSION then None
        else let url_len = ssn_ntohs (hdr_url_len header); data_len = ssn_ntohl (hdr_data_len header) in
          if unat url_len + unat data_len > SSN_MAX_PAYLOAD_SIZE then None
          else Some (SSN_HEADER_SIZE + unat url_len + unat data_len))"

record ssn_url_ref =
  url_ptr :: "bytes option"
  url_len :: nat

record ssn_data_ref =
  data_ptr :: "bytes option"
  data_length :: nat

definition ssn_get_url :: "bytes \<Rightarrow> ssn_url_ref option" where
  "ssn_get_url m = (let h = load_header m in
     if hdr_magic h \<noteq> SSN_MAGIC_BYTE \<or> hdr_version h \<noteq> SSN_PROTOCOL_VERSION then None
     else let n = unat (ssn_get_url_length h)
       in Some \<lparr>url_ptr = (if n > 0 then Some (drop SSN_HEADER_SIZE m) else None), url_len = n\<rparr>)"

definition ssn_get_data :: "bytes \<Rightarrow> ssn_data_ref option" where
  "ssn_get_data m = (let h = load_header m in
     if hdr_magic h \<noteq> SSN_MAGIC_BYTE \<or> hdr_version h \<noteq> SSN_PROTOCOL_VERSION then None
     else let n = unat (ssn_get_data_length h)
       in Some \<lparr>data_ptr = (if n = 0 then None
                   else Some (drop (SSN_HEADER_SIZE + unat (ssn_get_url_length h)) m)),
                data_length = n\<rparr>)"

definition ssn_packet_input :: "bytes \<Rightarrow> bytes option" where
  "ssn_packet_input buf =
     (if buf = [] then None
      else case validate_and_get_total_length buf (length buf) of
        None \<Rightarrow> None
      | Some total_len \<Rightarrow> if total_len > length buf then None else Some buf)"

section \<open>Sending\<close>

text \<open>The bytes a reference points to.\<close>

definition url_bytes :: "ssn_url_ref \<Rightarrow> bytes" where
  "url_bytes u = (case url_ptr u of None \<Rightarrow> [] | Some p \<Rightarrow> take (url_len u) p)"

definition data_bytes :: "ssn_data_ref \<Rightarrow> bytes" where
  "data_bytes d = (case data_ptr d of None \<Rightarrow> [] | Some p \<Rightarrow> take (data_length d) p)"

text \<open>The guards on the references, before anything is written.\<close>

definition refs_rejected :: "ssn_url_ref option \<Rightarrow> ssn_data_ref option \<Rightarrow> bool" where
  "refs_rejected url data \<longleftrightarrow>
     (case url of None \<Rightarrow> False
      | Some u \<Rightarrow> url_len u > 0xFFFF \<or> url_ptr u = None \<and> url_len u > 0) \<or>
     (case data of None \<Rightarrow> False
      | Some d \<Rightarrow> data_length d > 0xFFFFFFFF \<or> data_ptr d = None \<and> data_length d > 0)"

text \<open>The two lengths written into the header, and the total.\<close>

definition set_lengths :: "ssn_header \<Rightarrow> ssn_url_ref option \<Rightarrow> ssn_data_ref option \<Rightarrow> ssn_header" where
  "set_lengths h url data =
     (let h = (case url of None \<Rightarrow> h | Some u \<Rightarrow> ssn_set_url_length h (of_nat (url_len u)))
      in case data of None \<Rightarrow> h | Some d \<Rightarrow> ssn_set_data_length h (of_nat (data_length d)))"

definition total_length :: "ssn_url_ref option \<Rightarrow> ssn_data_ref option \<Rightarrow> nat" where
  "total_length url data = SSN_HEADER_SIZE + (case url of None \<Rightarrow> 0 | Some u \<Rightarrow> url_len u)
     + (case data of None \<Rightarrow> 0 | Some d \<Rightarrow> data_length d)"

text \<open>The bytes after the header, written behind it with two calls of \<^verbatim>\<open>memcpy\<close>; the second
  result is \<^verbatim>\<open>pos\<close>.\<close>

definition fill_payload :: "bytes \<Rightarrow> ssn_url_ref option \<Rightarrow> ssn_data_ref option \<Rightarrow> bytes \<times> nat" where
  "fill_payload buffer url data =
     (let (buffer, pos) = (case url of
            None \<Rightarrow> (buffer, SSN_HEADER_SIZE)
          | Some u \<Rightarrow> (memcpy_at buffer SSN_HEADER_SIZE (url_bytes u), SSN_HEADER_SIZE + url_len u))
      in case data of
           None \<Rightarrow> (buffer, pos)
         | Some d \<Rightarrow> (if data_ptr d = None then (buffer, pos)
                     else (memcpy_at buffer pos (data_bytes d), pos + data_length d)))"

text \<open>The send loop: \<open>msg\<close> is the first \<^verbatim>\<open>pos\<close> bytes of the buffer.\<close>

function send_loop ::
  "syscalls \<Rightarrow> int \<Rightarrow> bytes \<Rightarrow> nat \<Rightarrow> nat \<Rightarrow> ssn_transport \<Rightarrow> os \<Rightarrow> bool \<times> ssn_transport \<times> os" where
  "send_loop sc fd msg sent deadline t w =
     (if sent < length msg then
        (case ssn_transport_send sc t (drop sent msg) w of (send_len, t, w) \<Rightarrow>
           if send_len > 0 then send_loop sc fd msg (sent + nat send_len) deadline t w
           else if send_len < 0 \<and> os_errno w = EAGAIN then
             (if deadline = 0 \<or> fd < 0 then (False, t, w)
              else let wait_ms = (if deadline < 100 then deadline else 100) in
                case os_poll sc fd wait_ms w of (pr, w) \<Rightarrow>
                  if pr < 0 \<and> os_errno w \<noteq> EINTR then (False, t, w)
                  else send_loop sc fd msg sent
                    (if deadline \<le> wait_ms then 0 else deadline - wait_ms) t w)
           else (False, t, w))
      else (True, t, w))"
  by pat_completeness auto
termination
  by (relation "measures [\<lambda>(sc, fd, msg, sent, deadline, t, w). length msg - sent,
        \<lambda>(sc, fd, msg, sent, deadline, t, w). deadline]") auto

declare send_loop.simps [simp del]

definition send_timeout :: "ssn_transport \<Rightarrow> nat" where
  "send_timeout t = (if send_timeout_ms (tr_config t) > 0 then nat (send_timeout_ms (tr_config t)) else 5000)"

definition ssn_send_message ::
  "syscalls \<Rightarrow> ssn_transport \<Rightarrow> bytes \<Rightarrow> ssn_url_ref option \<Rightarrow> ssn_data_ref option \<Rightarrow> os \<Rightarrow>
   bool \<times> bytes \<times> ssn_transport \<times> os" where
  "ssn_send_message sc t buffer url data w =
     (if refs_rejected url data then (False, buffer, t, w)
      else
        let buffer = memcpy_at buffer 0 (store_header (set_lengths (load_header buffer) url data)) in
        if total_length url data > SSN_MAX_PACKET_SIZE \<or> total_length url data < SSN_HEADER_SIZE
        then (False, buffer, t, w)
        else case fill_payload buffer url data of (buffer, pos) \<Rightarrow>
          (case send_loop sc (ssn_transport_get_fd (Some t)) (take pos buffer) 0 (send_timeout t) t w of
             (ok, t, w) \<Rightarrow> (ok, buffer, t, w)))"


section \<open>Lemmas on headers\<close>

lemma bit_htons:
  "n < 16 \<Longrightarrow> bit (ssn_htons x) n = (if n < 8 then bit x (n + 8) else bit x (n - 8))"
  by (auto simp: ssn_htons_def bit_simps add.commute dest: bit_imp_le_length)

lemma bit_ff0000: "bit (0xFF0000 :: int) n \<longleftrightarrow> 16 \<le> n \<and> n < 24"
proof -
  have m: "(0xFF0000 :: int) = push_bit 16 (mask 8)" by (simp add: mask_eq_exp_minus_1)
  show ?thesis unfolding m bit_push_bit_iff bit_mask_iff by auto
qed

lemma bit_ff00: "bit (0xFF00 :: int) n \<longleftrightarrow> 8 \<le> n \<and> n < 16"
proof -
  have m: "(0xFF00 :: int) = push_bit 8 (mask 8)" by (simp add: mask_eq_exp_minus_1)
  show ?thesis unfolding m bit_push_bit_iff bit_mask_iff by auto
qed

lemma bit_htonl:
  "n < 32 \<Longrightarrow> bit (ssn_htonl x) n =
     (if n < 8 then bit x (n + 24) else if n < 16 then bit x (n + 8)
      else if n < 24 then bit x (n - 8) else bit x (n - 24))"
  by (auto simp: ssn_htonl_def bit_simps bit_ff0000 bit_ff00 add.commute dest: bit_imp_le_length)

lemma ntohs_htons [codec, simp]: "ssn_ntohs (ssn_htons x) = x"
  by (rule bit_word_eqI) (auto simp: ssn_ntohs_def bit_htons)

lemma ntohl_htonl [codec, simp]: "ssn_ntohl (ssn_htonl x) = x"
  by (rule bit_word_eqI) (auto simp: ssn_ntohl_def bit_htonl)

lemma ntoh_0 [simp]: "ssn_ntohs 0 = 0" "ssn_ntohl 0 = 0"
  by (simp_all add: ssn_ntohs_def ssn_htons_def ssn_ntohl_def ssn_htonl_def)

lemma length_store_header [simp]: "length (store_header h) = SSN_HEADER_SIZE"
  by (simp add: store_header_def SSN_HEADER_SIZE_def)

lemma load_store_header [codec, simp]: "load_header (store_header h @ m) = h"
  by (simp add: store_header_def load_header_def le16_def le32_def)

lemma load_header_take: "15 \<le> n \<Longrightarrow> load_header (take n m) = load_header m"
  by (simp add: load_header_def)

lemma load_memcpy_header [simp]: "load_header (memcpy_at b 0 (store_header h)) = h"
  by (simp add: memcpy_at_def)

text \<open>The wire format: multi-byte fields are stored most significant byte first.\<close>

lemma le16_htons: "le16 (ssn_htons x) = [ucast (drop_bit 8 x), ucast x]"
proof -
  have "ucast (ssn_htons x) = (ucast (drop_bit 8 x) :: byte)"
    by (rule bit_word_eqI) (auto simp: bit_simps bit_htons add.commute)
  moreover have "ucast (drop_bit 8 (ssn_htons x)) = (ucast x :: byte)"
    by (rule bit_word_eqI) (auto simp: bit_simps bit_htons)
  ultimately show ?thesis by (simp add: le16_def)
qed

lemma le32_htonl:
  "le32 (ssn_htonl x) = [ucast (drop_bit 24 x), ucast (drop_bit 16 x), ucast (drop_bit 8 x), ucast x]"
proof -
  have "ucast (ssn_htonl x) = (ucast (drop_bit 24 x) :: byte)"
    by (rule bit_word_eqI) (auto simp: bit_simps bit_htonl add.commute)
  moreover have "ucast (drop_bit 8 (ssn_htonl x)) = (ucast (drop_bit 16 x) :: byte)"
    by (rule bit_word_eqI) (auto simp: bit_simps bit_htonl add.commute)
  moreover have "ucast (drop_bit 16 (ssn_htonl x)) = (ucast (drop_bit 8 x) :: byte)"
    by (rule bit_word_eqI) (auto simp: bit_simps bit_htonl add.commute)
  moreover have "ucast (drop_bit 24 (ssn_htonl x)) = (ucast x :: byte)"
    by (rule bit_word_eqI) (auto simp: bit_simps bit_htonl)
  ultimately show ?thesis by (simp add: le32_def)
qed

section \<open>Frames\<close>

text \<open>A header with the magic byte and the version, as every sender creates it.\<close>

definition header_ok :: "ssn_header \<Rightarrow> bool" where
  "header_ok h \<longleftrightarrow> hdr_magic h = SSN_MAGIC_BYTE \<and> hdr_version h = SSN_PROTOCOL_VERSION \<and>
     hdr_url_len h = 0 \<and> hdr_data_len h = 0"

lemma create_header_ok [simp]: "header_ok (ssn_create_header ty status seqno)"
  by (simp add: header_ok_def ssn_create_header_def ssn_set_seqno_def ssn_set_status_def)

lemma create_header_fields [simp]:
  "ssn_get_msg_type (ssn_create_header ty status seqno) = ty"
  "ssn_get_status (ssn_create_header ty status seqno) = status"
  "ssn_get_seqno (ssn_create_header ty status seqno) = seqno"
  by (simp_all add: ssn_create_header_def ssn_set_seqno_def ssn_set_status_def ssn_get_msg_type_def
      ssn_get_status_def ssn_get_seqno_def)

lemma set_lengths_fields [simp]:
  "hdr_magic (set_lengths h u d) = hdr_magic h" "hdr_version (set_lengths h u d) = hdr_version h"
  "hdr_msg_type (set_lengths h u d) = hdr_msg_type h" "hdr_status (set_lengths h u d) = hdr_status h"
  "hdr_seqno (set_lengths h u d) = hdr_seqno h"
  by (simp_all add: set_lengths_def ssn_set_url_length_def ssn_set_data_length_def split: option.splits)

text \<open>References whose memory holds the bytes they claim.\<close>

definition url_ok :: "ssn_url_ref option \<Rightarrow> bool" where
  "url_ok u \<longleftrightarrow> (case u of None \<Rightarrow> True | Some u \<Rightarrow> length (url_bytes u) = url_len u)"

definition data_ok :: "ssn_data_ref option \<Rightarrow> bool" where
  "data_ok d \<longleftrightarrow> (case d of None \<Rightarrow> True | Some d \<Rightarrow> length (data_bytes d) = data_length d)"

definition opt_url :: "ssn_url_ref option \<Rightarrow> bytes" where
  "opt_url u = (case u of None \<Rightarrow> [] | Some u \<Rightarrow> url_bytes u)"

definition opt_data :: "ssn_data_ref option \<Rightarrow> bytes" where
  "opt_data d = (case d of None \<Rightarrow> [] | Some d \<Rightarrow> data_bytes d)"

definition encode_frame :: "ssn_header \<Rightarrow> ssn_url_ref option \<Rightarrow> ssn_data_ref option \<Rightarrow> bytes" where
  "encode_frame h u d = store_header (set_lengths h u d) @ opt_url u @ opt_data d"

text \<open>The messages that are sent: the references pass the guards and the frame fits a packet.\<close>

definition sendable :: "ssn_url_ref option \<Rightarrow> ssn_data_ref option \<Rightarrow> bool" where
  "sendable u d \<longleftrightarrow> \<not> refs_rejected u d \<and> total_length u d \<le> SSN_MAX_PACKET_SIZE"

lemma url_ok_length: "url_ok u \<Longrightarrow> length (opt_url u) = (case u of None \<Rightarrow> 0 | Some u \<Rightarrow> url_len u)"
  by (simp add: url_ok_def opt_url_def split: option.splits)

lemma data_ok_length: "data_ok d \<Longrightarrow> length (opt_data d) = (case d of None \<Rightarrow> 0 | Some d \<Rightarrow> data_length d)"
  by (simp add: data_ok_def opt_data_def split: option.splits)

lemma length_encode_frame: "url_ok u \<Longrightarrow> data_ok d \<Longrightarrow> length (encode_frame h u d) = total_length u d"
  by (simp add: encode_frame_def total_length_def url_ok_length data_ok_length)

lemma set_lengths_url:
  "sendable u d \<Longrightarrow> header_ok h \<Longrightarrow> unat (ssn_get_url_length (set_lengths h u d)) = (case u of None \<Rightarrow> 0 | Some u \<Rightarrow> url_len u)"
  by (auto simp: set_lengths_def ssn_get_url_length_def ssn_set_url_length_def ssn_set_data_length_def
      header_ok_def sendable_def refs_rejected_def split: option.splits)

lemma set_lengths_data:
  "sendable u d \<Longrightarrow> header_ok h \<Longrightarrow> unat (ssn_get_data_length (set_lengths h u d)) = (case d of None \<Rightarrow> 0 | Some d \<Rightarrow> data_length d)"
  by (auto simp: set_lengths_def ssn_get_data_length_def ssn_set_url_length_def ssn_set_data_length_def
      header_ok_def sendable_def refs_rejected_def split: option.splits)

lemma fill_payload_frame:
  assumes s: "sendable u d" and ok: "url_ok u" "data_ok d"
    and f: "fill_payload (memcpy_at b 0 (store_header h)) u d = (b', pos)"
  shows "take pos b' = store_header h @ opt_url u @ opt_data d" "pos = total_length u d"
proof -
  let ?b = "memcpy_at b 0 (store_header h)"
  have len: "SSN_HEADER_SIZE \<le> length ?b" by (simp add: memcpy_at_def)
  have hd: "take SSN_HEADER_SIZE ?b = store_header h" by (simp add: memcpy_at_def)
  define p where "p = SSN_HEADER_SIZE + length (opt_url u)"
  define b1 where "b1 = (case u of None \<Rightarrow> ?b | Some u \<Rightarrow> memcpy_at ?b SSN_HEADER_SIZE (url_bytes u))"
  have b1: "take p b1 = store_header h @ opt_url u" "p \<le> length b1"
    using len hd by (auto simp: b1_def p_def opt_url_def take_memcpy_at length_memcpy_at split: option.splits)
  have p: "p = SSN_HEADER_SIZE + (case u of None \<Rightarrow> 0 | Some u \<Rightarrow> url_len u)"
    using ok(1) by (simp add: p_def url_ok_length)
  have f': "(b', pos) = (case d of None \<Rightarrow> (b1, p)
      | Some d \<Rightarrow> if data_ptr d = None then (b1, p) else (memcpy_at b1 p (data_bytes d), p + data_length d))"
    unfolding f [symmetric] fill_payload_def b1_def p by (auto split: option.splits)
  show "take pos b' = store_header h @ opt_url u @ opt_data d"
    using f' b1 ok(2)
    by (auto simp: opt_data_def data_ok_def data_bytes_def take_memcpy_at split: option.splits if_splits)
  show "pos = total_length u d"
    using f' p s by (auto simp: total_length_def sendable_def refs_rejected_def split: option.splits if_splits)
qed


section \<open>The send loop\<close>

text \<open>One call of \<^verbatim>\<open>ssn_transport_send\<close>.\<close>

definition send_effect :: "ssn_transport \<Rightarrow> bytes \<Rightarrow> os \<Rightarrow> int \<times> ssn_transport \<times> os \<Rightarrow> bool" where
  "send_effect t data w r = (case r of (n, t', w') \<Rightarrow>
     tr_fd t' = tr_fd t \<and> tr_valid t' = tr_valid t \<and> tr_ops t' = tr_ops t \<and> n \<le> int (length data) \<and>
     os_waited w' = os_waited w \<and> os_open w' = os_open w \<and>
     (\<forall>g. sent_on g w' = (if g = tr_fd t \<and> 0 < n then sent_on g w @ take (nat n) data else sent_on g w)))"

lemma send_effect_none: "send_effect t data w (-1, t, w)"
  by (simp add: send_effect_def)

lemma stream_send_effect:
  assumes "syscalls_ok sc"
  shows "send_effect t data w (stream_send sc t data w)"
proof (cases "\<not> tr_valid t \<or> tr_fd t < 0")
  case True
  then show ?thesis by (simp add: stream_send_def send_effect_none)
next
  case False
  obtain m w1 where o: "os_send sc (tr_fd t) data w = (m, w1)" by fastforce
  have w1: "os_open w1 = os_open w" "os_waited w1 = os_waited w" "m \<le> int (length data)"
    "sent_on g w1 = (if g = tr_fd t \<and> 0 \<le> m then sent_on g w @ take (nat m) data else sent_on g w)" for g
    using o os_send_bound [OF assms o] os_send_waited [OF o] os_send_sent_on [OF o, of g]
    by (auto simp: os_send_def split: sum.splits)
  show ?thesis
    unfolding stream_send_def if_not_P [OF False] o prod.case send_effect_def
    by (simp add: w1)
qed

lemma transport_send_effect':
  assumes "syscalls_ok sc"
  shows "send_effect t data w (ssn_transport_send sc t data w)"
  using stream_send_effect [OF assms] send_effect_none
  by (cases "tr_ops t") (simp_all add: ssn_transport_send_def unix_transport_send_def
      tcp_transport_send_def udp_transport_send_def)

lemma transport_send_effect:
  assumes "syscalls_ok sc" "ssn_transport_send sc t data w = (n, t', w')"
  shows "tr_fd t' = tr_fd t" "tr_valid t' = tr_valid t" "tr_ops t' = tr_ops t" "n \<le> int (length data)"
    "os_waited w' = os_waited w" "os_open w' = os_open w"
    "sent_on g w' = (if g = tr_fd t \<and> 0 < n then sent_on g w @ take (nat n) data else sent_on g w)"
  using transport_send_effect' [OF assms(1), of t data w] assms(2) by (simp_all add: send_effect_def)

lemma os_poll_open: "os_poll sc fd ms w = (r, w') \<Longrightarrow> os_open w' = os_open w"
  by (auto simp: os_poll_def split: sum.splits)

text \<open>What a run of the loop leaves behind: a prefix of the rest is on the wire, the whole rest if
  and only if the loop reports success, and the waiting stays within the deadline.\<close>

definition sent_prefix :: "bytes \<Rightarrow> nat \<Rightarrow> ssn_transport \<Rightarrow> os \<Rightarrow> bool \<times> ssn_transport \<times> os \<Rightarrow> nat \<Rightarrow> bool" where
  "sent_prefix msg deadline t w r k = (case r of (ok, t', w') \<Rightarrow>
     k \<le> length msg \<and> (ok \<longleftrightarrow> k = length msg) \<and> tr_fd t' = tr_fd t \<and> tr_valid t' = tr_valid t \<and>
     tr_ops t' = tr_ops t \<and> os_open w' = os_open w \<and> os_waited w' \<le> os_waited w + deadline \<and>
     (\<forall>g. sent_on g w' = (if g = tr_fd t then sent_on g w @ take k msg else sent_on g w)))"

lemma sent_prefix_step:
  assumes "sent_prefix (drop (sent + m) msg) deadline t1 w1 r k" "sent + m \<le> length msg"
    "tr_fd t1 = tr_fd t" "tr_valid t1 = tr_valid t" "tr_ops t1 = tr_ops t" "os_open w1 = os_open w"
    "os_waited w1 + deadline \<le> os_waited w + deadline'"
    "\<And>g. sent_on g w1 = (if g = tr_fd t then sent_on g w @ take m (drop sent msg) else sent_on g w)"
  shows "sent_prefix (drop sent msg) deadline' t w r (m + k)"
proof -
  have "take (m + k) (drop sent msg) = take m (drop sent msg) @ take k (drop (sent + m) msg)"
    unfolding take_add drop_drop by (simp add: add.commute)
  then show ?thesis
    using assms by (cases r) (simp add: sent_prefix_def, linarith)
qed

lemma send_loop_prefix:
  "syscalls_ok sc \<Longrightarrow> sent \<le> length msg \<Longrightarrow>
    \<exists>k. sent_prefix (drop sent msg) deadline t w (send_loop sc fd msg sent deadline t w) k"
proof (induction sc fd msg sent deadline t w rule: send_loop.induct)
  case (1 sc fd msg sent deadline t w)
  show ?case
  proof (cases "sent < length msg")
    case False
    then show ?thesis by (intro exI [of _ 0]) (simp add: send_loop.simps [of sc fd msg] sent_prefix_def)
  next
    case True
    obtain n t1 w1 where s: "ssn_transport_send sc t (drop sent msg) w = (n, t1, w1)"
      by (metis prod_cases3)
    note e = transport_send_effect [OF "1.prems"(1) s]
    note unf = send_loop.simps [of sc fd msg sent deadline t w, unfolded s prod.case if_P [OF True]]
    have stop: "sent_prefix (drop sent msg) deadline t w (False, t1, w1) 0" if "\<not> 0 < n"
      using True that by (simp add: sent_prefix_def e)
    consider "0 < n" | "n < 0" "os_errno w1 = EAGAIN" "0 < deadline" "0 \<le> fd"
      | "\<not> 0 < n" "\<not> (n < 0 \<and> os_errno w1 = EAGAIN \<and> 0 < deadline \<and> 0 \<le> fd)"
      by linarith
    then show ?thesis
    proof cases
      case 1
      have le: "sent + nat n \<le> length msg" using e(4) True 1 by simp
      from "1.IH"(1) [OF True s [symmetric] refl 1 "1.prems"(1) le] obtain k where
        "sent_prefix (drop (sent + nat n) msg) deadline t1 w1 (send_loop sc fd msg (sent + nat n) deadline t1 w1) k"
        by blast
      from sent_prefix_step [OF this le e(1,2,3,6)] e(5,7) 1
      have "sent_prefix (drop sent msg) deadline t w (send_loop sc fd msg (sent + nat n) deadline t1 w1) (nat n + k)"
        by simp
      then show ?thesis unfolding unf if_P [OF 1] by blast
    next
      case 2
      define wait_ms where "wait_ms = (if deadline < 100 then deadline else 100)"
      define dl where "dl = (if deadline \<le> wait_ms then 0 else deadline - wait_ms)"
      obtain pr w2 where p: "os_poll sc fd wait_ms w1 = (pr, w2)" by fastforce
      have w2: "os_waited w2 = os_waited w1 + wait_ms" "os_open w2 = os_open w1" "sent_on g w2 = sent_on g w1" for g
        using os_poll_waited [OF p] os_poll_open [OF p] os_poll_sent_on [OF p] by auto
      have wt: "wait_ms \<le> deadline" by (simp add: wait_ms_def)
      have "\<not> 0 < n" using 2 by simp
      have run: "send_loop sc fd msg sent deadline t w =
          (if pr < 0 \<and> os_errno w2 \<noteq> EINTR then (False, t1, w2) else send_loop sc fd msg sent dl t1 w2)"
        unfolding unf using 2 p by (simp add: Let_def wait_ms_def [symmetric] dl_def)
      show ?thesis
      proof (cases "pr < 0 \<and> os_errno w2 \<noteq> EINTR")
        case True
        then show ?thesis unfolding run if_P [OF True]
          using \<open>sent < length msg\<close> 2 wt by (intro exI [of _ 0]) (simp add: sent_prefix_def e w2)
      next
        case False
        have "\<exists>k. sent_prefix (drop sent msg) dl t1 w2 (send_loop sc fd msg sent dl t1 w2) k"
          using "1.IH"(2) [OF True s [symmetric] refl \<open>\<not> 0 < n\<close> _ _ wait_ms_def p [symmetric] False "1.prems"] 2
          by (simp add: dl_def)
        then obtain k where "sent_prefix (drop (sent + 0) msg) dl t1 w2 (send_loop sc fd msg sent dl t1 w2) k"
          by auto
        from sent_prefix_step [OF this _ e(1,2,3)] True 2 wt
        have "sent_prefix (drop sent msg) deadline t w (send_loop sc fd msg sent dl t1 w2) (0 + k)"
          by (simp add: e w2 dl_def)
        then show ?thesis unfolding run if_not_P [OF False] by blast
      qed
    next
      case 3
      then have "send_loop sc fd msg sent deadline t w = (False, t1, w1)"
        unfolding unf by auto
      with stop 3 show ?thesis by auto
    qed
  qed
qed


lemma send_message_runs:
  assumes "sendable url data" "url_ok url" "data_ok data"
  obtains b where "ssn_send_message sc t buffer url data w =
    (case send_loop sc (ssn_transport_get_fd (Some t)) (encode_frame (load_header buffer) url data) 0
       (send_timeout t) t w of (ok, t, w) \<Rightarrow> (ok, b, t, w))"
    "take (length (encode_frame (load_header buffer) url data)) b = encode_frame (load_header buffer) url data"
proof -
  let ?h = "set_lengths (load_header buffer) url data"
  obtain b pos where f: "fill_payload (memcpy_at buffer 0 (store_header ?h)) url data = (b, pos)"
    by fastforce
  note fp = fill_payload_frame [OF assms f]
  have rej: "\<not> refs_rejected url data" and
    len: "\<not> (total_length url data > SSN_MAX_PACKET_SIZE \<or> total_length url data < SSN_HEADER_SIZE)"
    using assms(1) by (auto simp: sendable_def total_length_def)
  show thesis
  proof (rule that)
    show "ssn_send_message sc t buffer url data w =
      (case send_loop sc (ssn_transport_get_fd (Some t)) (encode_frame (load_header buffer) url data) 0
         (send_timeout t) t w of (ok, t, w) \<Rightarrow> (ok, b, t, w))"
      unfolding ssn_send_message_def if_not_P [OF rej] Let_def if_not_P [OF len] f prod.case
      by (simp add: fp(1) encode_frame_def case_prod_beta)
    show "take (length (encode_frame (load_header buffer) url data)) b = encode_frame (load_header buffer) url data"
      using fp length_encode_frame [OF assms(2,3)] by (simp add: encode_frame_def)
  qed
qed

text \<open>What any call leaves of the transport and of the descriptors, whatever the arguments are.\<close>

definition send_frame :: "ssn_transport \<Rightarrow> os \<Rightarrow> ssn_transport \<Rightarrow> os \<Rightarrow> bool" where
  "send_frame t w t' w' \<longleftrightarrow> tr_fd t' = tr_fd t \<and> tr_valid t' = tr_valid t \<and> tr_ops t' = tr_ops t \<and>
     os_open w' = os_open w \<and> (\<forall>g. g \<noteq> tr_fd t \<longrightarrow> sent_on g w' = sent_on g w)"

lemma send_message_frame:
  assumes "syscalls_ok sc" "ssn_send_message sc t buffer url data w = (r, buffer', t', w')"
  shows "send_frame t w t' w'"
proof -
  have "send_frame t w t' w'" if "send_loop sc fd msg 0 d t w = (r, t', w')" for fd msg d
    using send_loop_prefix [OF assms(1), of 0 msg d t w fd] that by (auto simp: sent_prefix_def send_frame_def)
  moreover have "send_frame t w t w" by (simp add: send_frame_def)
  ultimately show ?thesis
    using assms(2) unfolding ssn_send_message_def Let_def by (auto split: if_splits prod.splits)
qed

lemma send_message_sends:
  assumes ok: "syscalls_ok sc" and s: "sendable url data" "url_ok url" "data_ok data"
    and m: "ssn_send_message sc t buffer url data w = (r, buffer', t', w')"
  shows "\<exists>k. sent_prefix (encode_frame (load_header buffer) url data) (send_timeout t) t w (r, t', w') k"
proof -
  let ?frame = "encode_frame (load_header buffer) url data"
  obtain b where b: "ssn_send_message sc t buffer url data w =
    (case send_loop sc (ssn_transport_get_fd (Some t)) ?frame 0 (send_timeout t) t w of (ok, t, w) \<Rightarrow> (ok, b, t, w))"
    using s by (rule send_message_runs)
  with send_loop_prefix [OF ok, of 0 ?frame "send_timeout t" t w "ssn_transport_get_fd (Some t)"] m show ?thesis
    by (auto split: prod.splits)
qed

text \<open>On the ideal system a stream transport sends every frame.\<close>

lemma ideal_send_loop:
  assumes "tr_valid t" "0 \<le> tr_fd t" "tr_ops t \<noteq> Udp_ops"
  shows "fst (send_loop sc_ideal fd msg 0 d t w)"
proof (cases "msg = []")
  case False
  have "\<exists>t1 w1. ssn_transport_send sc_ideal t msg w = (int (length msg), t1, w1)"
    using assms by (cases "tr_ops t") (simp_all add: ssn_transport_send_def unix_transport_send_def
        tcp_transport_send_def stream_send_def os_send_def sc_ideal_def)
  then obtain t1 w1 where "ssn_transport_send sc_ideal t msg w = (int (length msg), t1, w1)" by blast
  with False show ?thesis
    by (simp add: send_loop.simps [of sc_ideal fd msg 0] send_loop.simps [of sc_ideal fd msg "length msg"])
qed (simp add: send_loop.simps)

lemma ideal_send_message:
  assumes "sendable url data" "url_ok url" "data_ok data" "tr_valid t" "0 \<le> tr_fd t" "tr_ops t \<noteq> Udp_ops"
  shows "fst (ssn_send_message sc_ideal t buffer url data w)"
proof -
  obtain b where b: "ssn_send_message sc_ideal t buffer url data w =
    (case send_loop sc_ideal (ssn_transport_get_fd (Some t)) (encode_frame (load_header buffer) url data) 0 (send_timeout t) t w of
       (ok, t, w) \<Rightarrow> (ok, b, t, w))"
    using assms(1-3) by (rule send_message_runs)
  then show ?thesis using ideal_send_loop [OF assms(4-6)] by (simp split: prod.splits) (metis fst_conv)
qed

section \<open>Reading a frame back\<close>

lemma load_encode_frame [simp]: "load_header (encode_frame h u d @ m) = set_lengths h u d"
  by (simp add: encode_frame_def)

lemma validate_encode_frame:
  assumes "sendable u d" "url_ok u" "data_ok d" "header_ok h" "SSN_HEADER_SIZE \<le> n"
  shows "validate_and_get_total_length (encode_frame h u d @ m) n = Some (length (encode_frame h u d))"
  using assms set_lengths_url [OF assms(1,4)] set_lengths_data [OF assms(1,4)]
  unfolding validate_and_get_total_length_def load_encode_frame length_encode_frame [OF assms(2,3)]
  by (simp add: header_ok_def Let_def ssn_get_url_length_def ssn_get_data_length_def total_length_def
      sendable_def frame_consts)

lemma get_url_encode_frame:
  assumes "sendable u d" "url_ok u" "header_ok h"
  shows "\<exists>r. ssn_get_url (encode_frame h u d @ m) = Some r \<and> url_bytes r = opt_url u \<and> url_len r = length (opt_url u)"
proof -
  have n: "unat (ssn_get_url_length (set_lengths h u d)) = length (opt_url u)"
    using set_lengths_url [OF assms(1,3)] url_ok_length [OF assms(2)] by simp
  show ?thesis
    using assms(3)
    by (auto simp: ssn_get_url_def Let_def header_ok_def n url_bytes_def encode_frame_def)
qed

lemma get_data_encode_frame:
  assumes "sendable u d" "url_ok u" "data_ok d" "header_ok h"
  shows "\<exists>r. ssn_get_data (encode_frame h u d @ m) = Some r \<and> data_bytes r = opt_data d \<and> data_length r = length (opt_data d)"
proof -
  have n: "unat (ssn_get_url_length (set_lengths h u d)) = length (opt_url u)"
    "unat (ssn_get_data_length (set_lengths h u d)) = length (opt_data d)"
    using set_lengths_url [OF assms(1,4)] url_ok_length [OF assms(2)]
      set_lengths_data [OF assms(1,4)] data_ok_length [OF assms(3)] by simp_all
  show ?thesis
    using assms(4)
    by (auto simp: ssn_get_data_def Let_def header_ok_def n data_bytes_def encode_frame_def)
qed

section \<open>Properties\<close>

text \<open>C2. \<^verbatim>\<open>ssn_send_message\<close> sends whole frames or fails: of a message that fits, a prefix of the
  frame (header with the two lengths, URL, data) is appended to what the kernel has accepted on the
  transport's descriptor, for any pattern of partial writes, full buffers, interrupted waits and
  errors; the prefix is the whole frame if and only if the function returns true, nothing is
  written to another descriptor, and the waits never exceed the send timeout.\<close>

theorem send_message_correct:
  assumes ok: "syscalls_ok sc" and s: "sendable url data" "url_ok url" "data_ok data"
    and m: "ssn_send_message sc t buffer url data w = (r, buffer', t', w')"
  defines "frame \<equiv> encode_frame (load_header buffer) url data"
  shows "\<exists>k \<le> length frame. (r \<longleftrightarrow> k = length frame) \<and>
      (\<forall>g. sent_on g w' = (if g = tr_fd t then sent_on g w @ take k frame else sent_on g w)) \<and>
      os_waited w' \<le> os_waited w + send_timeout t"
  using send_message_sends [OF ok s m] unfolding frame_def sent_prefix_def by auto

definition example_url :: ssn_url_ref where
  "example_url = \<lparr>url_ptr = Some [47, 97], url_len = 2\<rparr>"

definition example_data :: ssn_data_ref where
  "example_data = \<lparr>data_ptr = Some [1, 2, 3], data_length = 3\<rparr>"

lemma example_sendable:
  "sendable (Some example_url) (Some example_data)" "url_ok (Some example_url)" "data_ok (Some example_data)"
  by (simp_all add: sendable_def refs_rejected_def total_length_def frame_consts example_url_def
      example_data_def url_ok_def data_ok_def url_bytes_def data_bytes_def)

theorem send_message_correct_witness:
  "\<exists>b t w. ssn_send_message sc_ideal (fst witness_unix)
      (store_header (ssn_create_header SSN_MSG_TYPE_RPC_REQUEST 0 7)) (Some example_url) (Some example_data)
      os_init = (True, b, t, w) \<and>
    sent_on (tr_fd (fst witness_unix)) w =
      encode_frame (ssn_create_header SSN_MSG_TYPE_RPC_REQUEST 0 7) (Some example_url) (Some example_data)"
proof -
  let ?h = "ssn_create_header SSN_MSG_TYPE_RPC_REQUEST 0 7"
  let ?m = "ssn_send_message sc_ideal (fst witness_unix) (store_header ?h) (Some example_url) (Some example_data) os_init"
  obtain r b t w where m: "?m = (r, b, t, w)" by (metis prod_cases4)
  have "fst ?m" by code_simp
  with m have r by simp
  moreover have "load_header (store_header ?h) = ?h" using load_store_header [of ?h "[]"] by simp
  moreover have "sent_on g os_init = []" for g by (simp add: sent_on_def os_init_def)
  ultimately have "sent_on (tr_fd (fst witness_unix)) w = encode_frame ?h (Some example_url) (Some example_data)"
    using send_message_correct [OF sc_ideal_ok example_sendable m] by auto
  with m \<open>r\<close> show ?thesis by auto
qed



text \<open>C13. A frame is read back as it was sent: \<^verbatim>\<open>ssn_packet_input\<close> accepts it, and the accessors
  return the message type, status and sequence number given to \<^verbatim>\<open>ssn_create_header\<close> and the URL and
  data given to \<^verbatim>\<open>ssn_send_message\<close>, whatever follows the frame in the buffer.\<close>

theorem frame_roundtrip:
  assumes s: "sendable url data" "url_ok url" "data_ok data"
    and m_def: "m = encode_frame (ssn_create_header ty status seqno) url data @ rest"
  shows "ssn_packet_input m = Some m \<and>
    ssn_get_msg_type (load_header m) = ty \<and> ssn_get_status (load_header m) = status \<and>
    ssn_get_seqno (load_header m) = seqno \<and>
    (\<exists>u. ssn_get_url m = Some u \<and> url_bytes u = opt_url url \<and> url_len u = length (opt_url url)) \<and>
    (\<exists>d. ssn_get_data m = Some d \<and> data_bytes d = opt_data data \<and> data_length d = length (opt_data data))"
proof -
  let ?f = "encode_frame (ssn_create_header ty status seqno) url data"
  have len: "SSN_HEADER_SIZE \<le> length ?f" by (simp add: encode_frame_def)
  have "ssn_packet_input m = Some m"
    using validate_encode_frame [OF s create_header_ok, of "length m" ty status seqno rest] len
    by (auto simp: ssn_packet_input_def m_def frame_consts)
  moreover have "ssn_get_msg_type (load_header m) = ty" "ssn_get_status (load_header m) = status"
    "ssn_get_seqno (load_header m) = seqno"
    using create_header_fields [of ty status seqno]
    by (simp_all add: m_def ssn_get_msg_type_def ssn_get_status_def ssn_get_seqno_def)
  ultimately show ?thesis
    using get_url_encode_frame [OF s(1,2) create_header_ok] get_data_encode_frame [OF s create_header_ok]
    unfolding m_def by blast
qed

theorem frame_roundtrip_witness:
  "\<exists>m. m = encode_frame (ssn_create_header SSN_MSG_TYPE_PUBLISH 5 9) (Some example_url) (Some example_data) @ [] \<and>
    ssn_packet_input m = Some m \<and> ssn_get_seqno (load_header m) = 9 \<and>
    (\<exists>d. ssn_get_data m = Some d \<and> data_bytes d = [1, 2, 3])"
  using frame_roundtrip [OF example_sendable refl, of SSN_MSG_TYPE_PUBLISH 5 9 "[]"]
  by (auto simp: opt_data_def example_data_def data_bytes_def)

text \<open>C20. The header on the wire is 15 bytes with every multi-byte field most significant byte
  first.\<close>

theorem header_wire_format:
  "store_header (ssn_set_data_length (ssn_set_url_length (ssn_create_header ty status seqno) ul) dl) =
     [0x09, 0x02, ty,
      ucast (drop_bit 24 status), ucast (drop_bit 16 status), ucast (drop_bit 8 status), ucast status,
      ucast (drop_bit 8 ul), ucast ul, ucast (drop_bit 8 seqno), ucast seqno,
      ucast (drop_bit 24 dl), ucast (drop_bit 16 dl), ucast (drop_bit 8 dl), ucast dl]"
  by (simp add: store_header_def ssn_set_data_length_def ssn_set_url_length_def ssn_create_header_def
      ssn_set_seqno_def ssn_set_status_def le16_htons le32_htonl SSN_MAGIC_BYTE_def SSN_PROTOCOL_VERSION_def)

end
