(* ===== verification/Ssn_Stream.thy ===== *)
theory Ssn_Stream
  imports Ssn_Frame
begin

text \<open>
  The stream parser \<^verbatim>\<open>ssn_stream_feed\<close> of \<^verbatim>\<open>ssn_frame.c\<close>, which reassembles packets from the
  chunks a socket delivers, and its specification.

  The context is the record of the C struct; the buffer is the list of the bytes written to it so
  far. A packet handler with its argument is a function from the packet and the state it works on
  to its result and the new state. The lengths are kept as \<open>nat\<close>: the invariant bounds them by
  \<^verbatim>\<open>SSN_MAX_PACKET_SIZE\<close>, far below the \<open>2 ^ 32\<close> of their type.

  The specification \<open>spec_run\<close> works on the unread bytes as one list. \<open>feed_refines\<close> shows that
  the parser, with its read offset, its compaction and its bounded buffer, implements it. The
  locale \<open>packet_handler\<close> is what the parser promises its handlers and needs from them; the
  server, the client and the protocol contexts interpret it.
\<close>

section \<open>The parser\<close>

record ssn_stream_ctx =
  cur_len :: nat
  head :: nat
  total_len :: nat
  buffer :: bytes

definition ssn_stream_init :: "ssn_stream_ctx \<Rightarrow> ssn_stream_ctx" where
  "ssn_stream_init recv = recv\<lparr>cur_len := 0, head := 0, total_len := 0\<rparr>"

datatype 's feed_result =
    Feed_more ssn_stream_ctx 's
  | Feed_error ssn_stream_ctx 's
  | Feed_stop ssn_stream_ctx 's

text \<open>The inner loop: hand over every complete packet.\<close>

function extract_packets ::
  "(bytes \<Rightarrow> 's \<Rightarrow> bool \<times> 's) \<Rightarrow> ssn_stream_ctx \<Rightarrow> 's \<Rightarrow> 's feed_result" where
  "extract_packets callback recv st =
     (let available = cur_len recv - head recv in
      if available < SSN_HEADER_SIZE then Feed_more recv st
      else case validate_and_get_total_length (drop (head recv) (buffer recv)) available of
        None \<Rightarrow> Feed_error (ssn_stream_init recv) st
      | Some n \<Rightarrow>
          if available < n then Feed_more recv st
          else case callback (mem_slice (buffer recv) (head recv) n) st of
            (False, st) \<Rightarrow> Feed_stop (ssn_stream_init recv) st
          | (True, st) \<Rightarrow> extract_packets callback (recv\<lparr>head := head recv + n\<rparr>) st)"
  by pat_completeness auto

lemma validate_bounds:
  "validate_and_get_total_length b k = Some n \<Longrightarrow> SSN_HEADER_SIZE \<le> n \<and> n \<le> SSN_MAX_PACKET_SIZE"
  by (auto simp: validate_and_get_total_length_def Let_def frame_consts split: if_splits)

termination extract_packets
  by (relation "measure (\<lambda>(callback, recv, st). cur_len recv - head recv)")
    (auto dest!: validate_bounds simp: SSN_HEADER_SIZE_def)

declare extract_packets.simps [simp del]

text \<open>Making room: when the buffer is full the consumed bytes are moved out.\<close>

definition make_room :: "ssn_stream_ctx \<Rightarrow> ssn_stream_ctx" where
  "make_room recv =
     (if SSN_MAX_PACKET_SIZE - cur_len recv = 0 \<and> head recv > 0 then
        let remain = cur_len recv - head recv
        in recv\<lparr>buffer := memcpy_at (buffer recv) 0 (mem_slice (buffer recv) (head recv) remain),
                cur_len := remain, head := 0\<rparr>
      else recv)"

text \<open>The outer loop over the input that is not consumed yet.\<close>

function feed_loop ::
  "(bytes \<Rightarrow> 's \<Rightarrow> bool \<times> 's) \<Rightarrow> ssn_stream_ctx \<Rightarrow> bytes \<Rightarrow> 's \<Rightarrow> bool \<times> ssn_stream_ctx \<times> 's" where
  "feed_loop callback recv input st =
     (if input = [] then (True, recv, st)
      else
        let recv = make_room recv; space_left = SSN_MAX_PACKET_SIZE - cur_len recv in
        if space_left = 0 then (False, ssn_stream_init recv, st)
        else
          let n = min (length input) space_left;
              recv = recv\<lparr>buffer := memcpy_at (buffer recv) (cur_len recv) (take n input),
                          cur_len := cur_len recv + n\<rparr>
          in case extract_packets callback recv st of
               Feed_more recv st \<Rightarrow> feed_loop callback recv (drop n input) st
             | Feed_error recv st \<Rightarrow> (False, recv, st)
             | Feed_stop recv st \<Rightarrow> (True, recv, st))"
  by pat_completeness auto
termination feed_loop
  by (relation "measure (\<lambda>(callback, recv, input, st). length input)") auto

declare feed_loop.simps [simp del]

definition ssn_stream_feed ::
  "(bytes \<Rightarrow> 's \<Rightarrow> bool \<times> 's) \<Rightarrow> ssn_stream_ctx \<Rightarrow> bytes \<Rightarrow> 's \<Rightarrow> bool \<times> ssn_stream_ctx \<times> 's" where
  "ssn_stream_feed callback recv buf st = feed_loop callback recv buf st"

section \<open>Specification\<close>

datatype 's stream_result = More bytes 's | Broken 's | Stopped 's

function spec_run :: "(bytes \<Rightarrow> 's \<Rightarrow> bool \<times> 's) \<Rightarrow> bytes \<Rightarrow> 's \<Rightarrow> 's stream_result" where
  "spec_run cb b st =
     (if length b < SSN_HEADER_SIZE then More b st
      else case validate_and_get_total_length b (length b) of
        None \<Rightarrow> Broken st
      | Some n \<Rightarrow>
          if length b < n then More b st
          else case cb (take n b) st of
            (False, st) \<Rightarrow> Stopped st
          | (True, st) \<Rightarrow> spec_run cb (drop n b) st)"
  by pat_completeness auto
termination spec_run
  by (relation "measure (\<lambda>(cb, b, st). length b)")
    (auto dest!: validate_bounds simp: SSN_HEADER_SIZE_def)

declare spec_run.simps [simp del]

text \<open>The unread bytes of a context, and its invariant.\<close>

definition pending :: "ssn_stream_ctx \<Rightarrow> bytes" where
  "pending recv = mem_slice (buffer recv) (head recv) (cur_len recv - head recv)"

definition incomplete :: "bytes \<Rightarrow> bool" where
  "incomplete b \<longleftrightarrow> length b < SSN_HEADER_SIZE \<or>
     (\<exists>n. validate_and_get_total_length b (length b) = Some n \<and> length b < n)"

definition stream_inv :: "ssn_stream_ctx \<Rightarrow> bool" where
  "stream_inv recv \<longleftrightarrow> head recv \<le> cur_len recv \<and> cur_len recv \<le> length (buffer recv) \<and>
     cur_len recv \<le> SSN_MAX_PACKET_SIZE \<and> length (buffer recv) \<le> SSN_MAX_PACKET_SIZE"

section \<open>Lemmas on the specification\<close>

lemma validate_append:
  "SSN_HEADER_SIZE \<le> length a \<Longrightarrow>
   validate_and_get_total_length (a @ b) (length (a @ b)) = validate_and_get_total_length a (length a)"
  by (auto simp: validate_and_get_total_length_def load_header_def nth_append SSN_HEADER_SIZE_def Let_def)

lemma validate_any:
  "SSN_HEADER_SIZE \<le> k \<Longrightarrow> SSN_HEADER_SIZE \<le> k' \<Longrightarrow>
   validate_and_get_total_length b k = validate_and_get_total_length b k'"
  by (simp add: validate_and_get_total_length_def)

lemma spec_run_append:
  "spec_run cb (a @ b) st = (case spec_run cb a st of
       More r st' \<Rightarrow> spec_run cb (r @ b) st'
     | Broken st' \<Rightarrow> Broken st'
     | Stopped st' \<Rightarrow> Stopped st')"
proof (induction cb a st rule: spec_run.induct)
  case (1 cb a st)
  show ?case
  proof (cases "length a < SSN_HEADER_SIZE")
    case True
    then show ?thesis by (simp add: spec_run.simps [of cb a])
  next
    case False
    then have v: "validate_and_get_total_length (a @ b) (length (a @ b)) = validate_and_get_total_length a (length a)"
      by (intro validate_append) simp
    show ?thesis
    proof (cases "validate_and_get_total_length a (length a)")
      case None
      with False v show ?thesis by (simp add: spec_run.simps [of cb a] spec_run.simps [of cb "a @ b"])
    next
      case (Some n)
      show ?thesis
      proof (cases "length a < n")
        case True
        with False Some show ?thesis by (simp add: spec_run.simps [of cb a])
      next
        case nl: False
        obtain ok st1 where c: "cb (take n a) st = (ok, st1)" by fastforce
        with 1 [OF False Some nl c [symmetric]] False Some nl v show ?thesis
          by (cases ok) (simp_all add: spec_run.simps [of cb a] spec_run.simps [of cb "a @ b"])
      qed
    qed
  qed
qed

lemma spec_run_incomplete: "incomplete b \<Longrightarrow> spec_run cb b st = More b st"
  by (auto simp: incomplete_def spec_run.simps [of cb b])

lemma spec_run_More_incomplete: "spec_run cb b st = More r st' \<Longrightarrow> incomplete r"
proof (induction cb b st rule: spec_run.induct)
  case (1 cb b st)
  then show ?case
    by (subst (asm) (2) spec_run.simps)
      (auto simp: incomplete_def split: if_splits option.splits prod.splits bool.splits)
qed

lemma incomplete_length: "incomplete b \<Longrightarrow> length b < SSN_MAX_PACKET_SIZE"
  by (auto simp: incomplete_def frame_consts dest!: validate_bounds)


section \<open>Refinement\<close>

lemma pending_init [simp]: "pending (ssn_stream_init recv) = []"
  by (simp add: pending_def ssn_stream_init_def mem_slice_def)

lemma inv_init [simp]: "stream_inv recv \<Longrightarrow> stream_inv (ssn_stream_init recv)"
  by (simp add: stream_inv_def ssn_stream_init_def)

lemma incomplete_Nil [simp]: "incomplete []"
  by (simp add: incomplete_def SSN_HEADER_SIZE_def)

lemma length_pending: "stream_inv recv \<Longrightarrow> length (pending recv) = cur_len recv - head recv"
  by (auto simp: pending_def length_mem_slice stream_inv_def)

lemma validate_take:
  "SSN_HEADER_SIZE \<le> k \<Longrightarrow> validate_and_get_total_length (take k b) j = validate_and_get_total_length b j"
  by (simp add: validate_and_get_total_length_def load_header_take SSN_HEADER_SIZE_def)

text \<open>The inner loop computes the specification on the unread bytes.\<close>

fun extract_outcome :: "ssn_stream_ctx \<Rightarrow> 's feed_result \<Rightarrow> 's stream_result \<Rightarrow> bool" where
  "extract_outcome recv (Feed_more recv' st') r \<longleftrightarrow>
     r = More (pending recv') st' \<and> stream_inv recv' \<and> cur_len recv' = cur_len recv"
| "extract_outcome recv (Feed_error recv' st') r \<longleftrightarrow> r = Broken st' \<and> stream_inv recv' \<and> pending recv' = []"
| "extract_outcome recv (Feed_stop recv' st') r \<longleftrightarrow> r = Stopped st' \<and> stream_inv recv' \<and> pending recv' = []"

lemma extract_outcome_cur_len:
  "cur_len recv = cur_len recv1 \<Longrightarrow> extract_outcome recv1 x r \<Longrightarrow> extract_outcome recv x r"
  by (cases x) simp_all

lemma extract_refines:
  "stream_inv recv \<Longrightarrow> extract_outcome recv (extract_packets cb recv st) (spec_run cb (pending recv) st)"
proof (induction cb recv st rule: extract_packets.induct)
  case (1 cb recv st)
  let ?av = "cur_len recv - head recv"
  have len: "length (pending recv) = ?av" using "1.prems" by (rule length_pending)
  show ?case
  proof (cases "?av < SSN_HEADER_SIZE")
    case True
    with "1.prems" len show ?thesis
      by (simp add: extract_packets.simps [of cb recv] spec_run.simps [of cb "pending recv"])
  next
    case False
    have v: "validate_and_get_total_length (pending recv) (length (pending recv)) =
        validate_and_get_total_length (drop (head recv) (buffer recv)) ?av"
      unfolding len using False by (simp add: pending_def mem_slice_def validate_take)
    show ?thesis
    proof (cases "validate_and_get_total_length (drop (head recv) (buffer recv)) ?av")
      case None
      with False v "1.prems" len show ?thesis
        by (simp add: extract_packets.simps [of cb recv] spec_run.simps [of cb "pending recv"])
    next
      case (Some n)
      show ?thesis
      proof (cases "?av < n")
        case True
        with False Some v "1.prems" len show ?thesis
          by (simp add: extract_packets.simps [of cb recv] spec_run.simps [of cb "pending recv"])
      next
        case nl: False
        let ?recv = "recv\<lparr>head := head recv + n\<rparr>"
        have inv: "stream_inv ?recv" using "1.prems" nl by (auto simp: stream_inv_def)
        have pk: "take n (pending recv) = mem_slice (buffer recv) (head recv) n"
          using nl by (simp add: pending_def mem_slice_take)
        have dr: "drop n (pending recv) = pending ?recv"
          by (simp add: pending_def mem_slice_drop)
        obtain ok st1 where c: "cb (mem_slice (buffer recv) (head recv) n) st = (ok, st1)" by fastforce
        have ih: "extract_outcome ?recv (extract_packets cb ?recv st1) (spec_run cb (pending ?recv) st1)" if ok
          using "1.IH" [OF refl False Some nl c [symmetric] _ inv] that by simp
        show ?thesis
        proof (cases ok)
          case True
          with False Some nl v len c pk dr
          have "extract_packets cb recv st = extract_packets cb ?recv st1"
            "spec_run cb (pending recv) st = spec_run cb (pending ?recv) st1"
            by (simp_all add: extract_packets.simps [of cb recv] spec_run.simps [of cb "pending recv"])
          then show ?thesis using ih [OF True] extract_outcome_cur_len [of recv ?recv] by simp
        next
          case okF: False
          with False Some nl v len c pk "1.prems" show ?thesis
            by (simp add: extract_packets.simps [of cb recv] spec_run.simps [of cb "pending recv"])
        qed
      qed
    qed
  qed
qed

text \<open>Compaction keeps the unread bytes and makes room when there is something incomplete.\<close>

lemma make_room_refines:
  assumes inv: "stream_inv recv" and inc: "incomplete (pending recv)"
  shows "stream_inv (make_room recv)" "pending (make_room recv) = pending recv"
    "cur_len (make_room recv) < SSN_MAX_PACKET_SIZE"
proof -
  have len: "length (pending recv) = cur_len recv - head recv" using inv by (rule length_pending)
  have lt: "cur_len recv - head recv < SSN_MAX_PACKET_SIZE" using incomplete_length [OF inc] len by simp
  have mv: "make_room recv = recv\<lparr>buffer := memcpy_at (buffer recv) 0 (pending recv),
      cur_len := cur_len recv - head recv, head := 0\<rparr>" if "cur_len recv = SSN_MAX_PACKET_SIZE"
    using that lt by (auto simp: make_room_def pending_def Let_def)
  have tk: "take (length p) (memcpy_at b 0 p) = p" for b p :: bytes by (simp add: memcpy_at_def)
  have sz: "length (memcpy_at (buffer recv) 0 (pending recv)) = length (buffer recv)"
    using inv len by (auto simp: length_memcpy_at stream_inv_def)
  have "stream_inv (make_room recv) \<and> pending (make_room recv) = pending recv \<and>
      cur_len (make_room recv) < SSN_MAX_PACKET_SIZE"
  proof (cases "cur_len recv = SSN_MAX_PACKET_SIZE")
    case True
    show ?thesis unfolding mv [OF True]
      using inv lt sz tk [of "pending recv" "buffer recv"] len
      by (auto simp: stream_inv_def pending_def mem_slice_def)
  next
    case False
    with inv have "make_room recv = recv" by (auto simp: make_room_def stream_inv_def)
    with False inv show ?thesis by (auto simp: stream_inv_def)
  qed
  then show "stream_inv (make_room recv)" "pending (make_room recv) = pending recv"
    "cur_len (make_room recv) < SSN_MAX_PACKET_SIZE" by blast+
qed

lemma copy_refines:
  assumes inv: "stream_inv recv" and n: "n = length inp" "cur_len recv + n \<le> SSN_MAX_PACKET_SIZE"
  defines "recv' \<equiv> recv\<lparr>buffer := memcpy_at (buffer recv) (cur_len recv) inp, cur_len := cur_len recv + n\<rparr>"
  shows "stream_inv recv'" "pending recv' = pending recv @ inp"
proof -
  show "stream_inv recv'"
    using inv n by (auto simp: recv'_def stream_inv_def length_memcpy_at)
  show "pending recv' = pending recv @ inp"
    using inv n by (simp add: recv'_def pending_def stream_inv_def mem_slice_memcpy_at)
qed

fun feed_outcome :: "bool \<times> ssn_stream_ctx \<times> 's \<Rightarrow> 's stream_result \<Rightarrow> bool" where
  "feed_outcome (ok, recv', st') (More rest st) \<longleftrightarrow>
     ok \<and> st' = st \<and> stream_inv recv' \<and> pending recv' = rest \<and> incomplete rest"
| "feed_outcome (ok, recv', st') (Broken st) \<longleftrightarrow> \<not> ok \<and> st' = st \<and> stream_inv recv' \<and> pending recv' = []"
| "feed_outcome (ok, recv', st') (Stopped st) \<longleftrightarrow> ok \<and> st' = st \<and> stream_inv recv' \<and> pending recv' = []"

lemma feed_loop_refines:
  "stream_inv recv \<Longrightarrow> incomplete (pending recv) \<Longrightarrow>
   feed_outcome (feed_loop cb recv input st) (spec_run cb (pending recv @ input) st)"
proof (induction cb recv input st rule: feed_loop.induct)
  case (1 cb recv input st)
  show ?case
  proof (cases "input = []")
    case True
    with "1.prems" show ?thesis
      by (simp add: feed_loop.simps [of cb recv] spec_run_incomplete)
  next
    case False
    note mr = make_room_refines [OF "1.prems"]
    define r1 where "r1 = make_room recv"
    define n where "n = min (length input) (SSN_MAX_PACKET_SIZE - cur_len r1)"
    define r2 where "r2 = r1\<lparr>buffer := memcpy_at (buffer r1) (cur_len r1) (take n input), cur_len := cur_len r1 + n\<rparr>"
    have nz: "SSN_MAX_PACKET_SIZE - cur_len r1 \<noteq> 0" using mr(3) by (simp add: r1_def)
    have r2: "stream_inv r2" "pending r2 = pending recv @ take n input"
      using copy_refines [of r1 n "take n input"] mr by (auto simp: r1_def r2_def n_def)
    have unf: "feed_loop cb recv input st = (case extract_packets cb r2 st of
        Feed_more recv st \<Rightarrow> feed_loop cb recv (drop n input) st
      | Feed_error recv st \<Rightarrow> (False, recv, st)
      | Feed_stop recv st \<Rightarrow> (True, recv, st))"
      using False nz unfolding feed_loop.simps [of cb recv input st] r2_def n_def r1_def Let_def
      by simp
    have spec: "spec_run cb (pending recv @ input) st = (case spec_run cb (pending r2) st of
        More r st' \<Rightarrow> spec_run cb (r @ drop n input) st'
      | Broken st' \<Rightarrow> Broken st' | Stopped st' \<Rightarrow> Stopped st')"
      using spec_run_append [of cb "pending r2" "drop n input" st] by (simp add: r2(2))
    note ex = extract_refines [OF r2(1), of cb st]
    show ?thesis
    proof (cases "extract_packets cb r2 st")
      case (Feed_more r3 st3)
      with ex have r3: "spec_run cb (pending r2) st = More (pending r3) st3" "stream_inv r3" by simp_all
      have "feed_outcome (feed_loop cb r3 (drop n input) st3) (spec_run cb (pending r3 @ drop n input) st3)"
        using "1.IH" [OF False r1_def refl nz n_def r2_def Feed_more r3(2)] spec_run_More_incomplete [OF r3(1)] by blast
      then show ?thesis unfolding unf spec Feed_more r3(1) by simp
    next
      case (Feed_error r3 st3)
      with ex show ?thesis unfolding unf spec by auto
    next
      case (Feed_stop r3 st3)
      with ex show ?thesis unfolding unf spec by auto
    qed
  qed
qed


section \<open>Handlers\<close>

text \<open>What a handler is given: exactly one frame.\<close>

definition is_frame :: "bytes \<Rightarrow> bool" where
  "is_frame p \<longleftrightarrow> validate_and_get_total_length p (length p) = Some (length p)"

text \<open>The contract between the parser and a packet handler: the handler keeps its invariant on every
  frame, and then a whole \<^verbatim>\<open>ssn_stream_feed\<close> keeps it, whatever bytes arrive.\<close>

locale packet_handler =
  fixes cb :: "bytes \<Rightarrow> 's \<Rightarrow> bool \<times> 's"
    and hinv :: "'s \<Rightarrow> bool"
  assumes handler_inv: "hinv st \<Longrightarrow> is_frame p \<Longrightarrow> cb p st = (r, st') \<Longrightarrow> hinv st'"
begin

fun result_inv :: "'s stream_result \<Rightarrow> bool" where
  "result_inv (More b st) = hinv st"
| "result_inv (Broken st) = hinv st"
| "result_inv (Stopped st) = hinv st"

lemma spec_run_inv: "hinv st \<Longrightarrow> result_inv (spec_run cb b st)"
proof (induction "length b" arbitrary: b st rule: less_induct)
  case (less b st)
  show ?case
  proof (cases "validate_and_get_total_length b (length b)")
    case (Some n)
    show ?thesis
    proof (cases "length b < SSN_HEADER_SIZE \<or> length b < n")
      case True
      with Some less.prems show ?thesis by (auto simp: spec_run.simps [of cb b])
    next
      case False
      obtain ok st1 where c: "cb (take n b) st = (ok, st1)" by fastforce
      have nb: "SSN_HEADER_SIZE \<le> n" using validate_bounds [OF Some] by simp
      have "is_frame (take n b)"
        using Some False nb validate_any [of n "length b" b] by (simp add: is_frame_def validate_take min_def)
      with c less.prems have inv: "hinv st1" by (blast intro: handler_inv)
      have "length (drop n b) < length b" using False nb by (simp add: SSN_HEADER_SIZE_def, linarith)
      from less.hyps [OF this inv] Some False c inv show ?thesis
        by (cases ok) (simp_all add: spec_run.simps [of cb b])
    qed
  qed (use less.prems in \<open>simp add: spec_run.simps [of cb b]\<close>)
qed

lemma feed_inv:
  assumes "hinv st" "stream_inv recv" "incomplete (pending recv)" "ssn_stream_feed cb recv buf st = (ok, recv', st')"
  shows "hinv st'" "stream_inv recv'" "incomplete (pending recv')"
proof -
  have o: "feed_outcome (ok, recv', st') (spec_run cb (pending recv @ buf) st)"
    using feed_loop_refines [OF assms(2,3), of cb buf st] assms(4) by (simp add: ssn_stream_feed_def)
  have r: "result_inv (spec_run cb (pending recv @ buf) st)" using assms(1) by (rule spec_run_inv)
  from o r show "hinv st'" "stream_inv recv'" "incomplete (pending recv')"
    by (cases "spec_run cb (pending recv @ buf) st"; simp)+
qed

end

text \<open>The handler that only collects what it is given.\<close>

definition collect :: "bytes \<Rightarrow> bytes list \<Rightarrow> bool \<times> bytes list" where
  "collect p ps = (True, ps @ [p])"

interpretation collector: packet_handler collect "list_all is_frame"
  by unfold_locales (auto simp: collect_def)

lemma spec_run_frames:
  "list_all is_frame fs \<Longrightarrow> spec_run collect (concat fs) ps = More [] (ps @ fs)"
proof (induction fs arbitrary: ps)
  case Nil
  show ?case by (simp add: spec_run.simps [of collect "[]"] SSN_HEADER_SIZE_def)
next
  case (Cons f fs)
  have f: "validate_and_get_total_length f (length f) = Some (length f)"
    using Cons.prems by (simp add: is_frame_def)
  have "\<not> length f < SSN_HEADER_SIZE" using validate_bounds [OF f] by simp
  moreover have "validate_and_get_total_length (f @ concat fs) (length (f @ concat fs)) = Some (length f)"
    using f validate_append [of f "concat fs"] calculation by simp
  ultimately show ?case
    using Cons collect_def [of f ps] by (simp add: spec_run.simps [of collect "f @ concat fs"])
qed

text \<open>Feeding the chunks one after the other, as the receive loops do.\<close>

fun feed_all ::
  "(bytes \<Rightarrow> 's \<Rightarrow> bool \<times> 's) \<Rightarrow> ssn_stream_ctx \<Rightarrow> bytes list \<Rightarrow> 's \<Rightarrow> bool \<times> ssn_stream_ctx \<times> 's" where
  "feed_all cb recv [] st = (True, recv, st)"
| "feed_all cb recv (c # cs) st = (case ssn_stream_feed cb recv c st of
     (ok, recv, st) \<Rightarrow> if ok then feed_all cb recv cs st else (False, recv, st))"

lemma feed_all_spec:
  assumes "stream_inv recv" "incomplete (pending recv)"
    and "spec_run cb (pending recv @ concat chunks) st = More rest st'"
  shows "\<exists>recv'. feed_all cb recv chunks st = (True, recv', st') \<and> pending recv' = rest \<and> stream_inv recv'"
  using assms
proof (induction chunks arbitrary: recv st)
  case Nil
  then show ?case by (simp add: spec_run_incomplete)
next
  case (Cons c cs)
  obtain ok r1 st1 where f: "ssn_stream_feed cb recv c st = (ok, r1, st1)" by (metis prod_cases3)
  have o: "feed_outcome (ok, r1, st1) (spec_run cb (pending recv @ c) st)"
    using feed_loop_refines [OF Cons.prems(1,2), of cb c st] f by (simp add: ssn_stream_feed_def)
  have s: "(case spec_run cb (pending recv @ c) st of
       More r st' \<Rightarrow> spec_run cb (r @ concat cs) st'
     | Broken st' \<Rightarrow> Broken st' | Stopped st' \<Rightarrow> Stopped st') = More rest st'"
    using Cons.prems(3) spec_run_append [of cb "pending recv @ c" "concat cs" st] by simp
  then obtain r where "spec_run cb (pending recv @ c) st = More r st1" "ok" "stream_inv r1"
      "pending r1 = r" "incomplete r"
    using o by (auto split: stream_result.splits)
  with s Cons.IH [of r1 st1] f show ?case by simp
qed

section \<open>Properties\<close>

text \<open>C1. \<^verbatim>\<open>ssn_stream_feed\<close> implements the specification: on a context it left behind, the handler
  sees exactly the complete packets of the unread bytes followed by the new ones, in order, up to
  the first malformed header (the function returns false and the context is reset) or the first
  packet on which the handler stops (it returns true and the context is reset); otherwise the
  incomplete rest is kept. The offsets stay inside the buffer. In particular a full buffer without a
  complete packet never occurs.\<close>

theorem stream_feed_refines:
  assumes "stream_inv recv" "incomplete (pending recv)"
  shows "feed_outcome (ssn_stream_feed callback recv buf st) (spec_run callback (pending recv @ buf) st)"
  unfolding ssn_stream_feed_def using assms by (rule feed_loop_refines)

definition empty_ctx :: ssn_stream_ctx where
  "empty_ctx = \<lparr>cur_len = 0, head = 0, total_len = 0, buffer = []\<rparr>"

lemma empty_ctx_inv: "stream_inv empty_ctx" "pending empty_ctx = []"
  by (simp_all add: empty_ctx_def stream_inv_def pending_def mem_slice_def)

theorem stream_feed_refines_witness:
  "\<exists>recv. ssn_stream_feed collect empty_ctx [9, 2, 0] [] = (True, recv, []) \<and> pending recv = [9, 2, 0]"
proof -
  have "spec_run collect [9, 2, 0] [] = More [9, 2, 0] []"
    by (simp add: spec_run.simps [of collect] SSN_HEADER_SIZE_def)
  with stream_feed_refines [of empty_ctx collect "[9, 2, 0]" "[]"] empty_ctx_inv
  show ?thesis by (cases "ssn_stream_feed collect empty_ctx [9, 2, 0] []") auto
qed



text \<open>C4. Sender to receiver: the frames \<^verbatim>\<open>ssn_send_message\<close> puts on the wire for any list of
  messages, cut into chunks in any way, are handed to the handler one by one, unchanged and in
  order, and nothing is left unread.\<close>

theorem frames_delivered:
  assumes "stream_inv recv" "pending recv = []"
    and msgs: "\<forall>(h, u, d) \<in> set msgs. header_ok h \<and> sendable u d \<and> url_ok u \<and> data_ok d"
    and chunks: "concat chunks = concat (map (\<lambda>(h, u, d). encode_frame h u d) msgs)"
  shows "\<exists>recv'. feed_all collect recv chunks [] =
    (True, recv', map (\<lambda>(h, u, d). encode_frame h u d) msgs) \<and> pending recv' = []"
proof -
  have "is_frame (encode_frame h u d)" if "(h, u, d) \<in> set msgs" for h u d
    using msgs that validate_encode_frame [of u d h "length (encode_frame h u d)" "[]"]
    by (auto simp: is_frame_def encode_frame_def)
  then have "list_all is_frame (map (\<lambda>(h, u, d). encode_frame h u d) msgs)"
    by (auto simp: list_all_iff)
  from spec_run_frames [OF this, of "[]"] chunks assms(2)
  have s: "spec_run collect (pending recv @ concat chunks) [] = More [] (map (\<lambda>(h, u, d). encode_frame h u d) msgs)"
    by simp
  have inc: "incomplete (pending recv)" using assms(2) by simp
  from feed_all_spec [OF assms(1) inc s] show ?thesis by blast
qed

theorem frames_delivered_witness:
  "\<exists>recv f. f = encode_frame (ssn_create_header SSN_MSG_TYPE_PUBLISH 0 1) (Some example_url) (Some example_data) \<and>
    feed_all collect empty_ctx [take 4 f, drop 4 f] [] = (True, recv, [f]) \<and> pending recv = []"
proof -
  let ?h = "ssn_create_header SSN_MSG_TYPE_PUBLISH 0 1"
  let ?f = "encode_frame ?h (Some example_url) (Some example_data)"
  have "concat [take 4 ?f, drop 4 ?f] =
      concat (map (\<lambda>(h, u, d). encode_frame h u d) [(?h, Some example_url, Some example_data)])"
    by simp
  from frames_delivered [OF empty_ctx_inv _ this] example_sendable show ?thesis by simp
qed

end
