(* ===== verification/Ssn_Error.thy ===== *)
theory Ssn_Error
  imports Ssn_Prelude
begin

text \<open>
  Error codes of \<^verbatim>\<open>ssn_error.h\<close> and \<^verbatim>\<open>ssn_error.c\<close>: composition, the message table and the
  accessors. \<^verbatim>\<open>ssn_handle_error\<close> only formats and logs.
\<close>

definition SSN_ECODE_MAKE :: "u32 \<Rightarrow> u32 \<Rightarrow> u32 \<Rightarrow> u32" where
  "SSN_ECODE_MAKE category subcategory code = push_bit 24 category OR push_bit 16 subcategory OR code"

definition SSN_ECODE_SUCCESS :: u32 where "SSN_ECODE_SUCCESS = SSN_ECODE_MAKE 0 0 0"
definition SSN_ECODE_INVALID_ARGS :: u32 where "SSN_ECODE_INVALID_ARGS = SSN_ECODE_MAKE 0 0 1"
definition SSN_ECODE_NOT_FOUND :: u32 where "SSN_ECODE_NOT_FOUND = SSN_ECODE_MAKE 0 0 2"
definition SSN_ECODE_TIMEOUT :: u32 where "SSN_ECODE_TIMEOUT = SSN_ECODE_MAKE 0 0 3"
definition SSN_ECODE_INTERNAL :: u32 where "SSN_ECODE_INTERNAL = SSN_ECODE_MAKE 0 0 4"
definition SSN_ECODE_NET_CONNECT :: u32 where "SSN_ECODE_NET_CONNECT = SSN_ECODE_MAKE 1 0 1"
definition SSN_ECODE_NET_DISCONNECT :: u32 where "SSN_ECODE_NET_DISCONNECT = SSN_ECODE_MAKE 1 0 2"
definition SSN_ECODE_NET_READ :: u32 where "SSN_ECODE_NET_READ = SSN_ECODE_MAKE 1 0 3"
definition SSN_ECODE_NET_WRITE :: u32 where "SSN_ECODE_NET_WRITE = SSN_ECODE_MAKE 1 0 4"
definition SSN_ECODE_SERVICE_NOT_FOUND :: u32 where "SSN_ECODE_SERVICE_NOT_FOUND = SSN_ECODE_MAKE 2 0 1"
definition SSN_ECODE_SERVICE_BUSY :: u32 where "SSN_ECODE_SERVICE_BUSY = SSN_ECODE_MAKE 2 0 2"
definition SSN_ECODE_SERVICE_ERROR :: u32 where "SSN_ECODE_SERVICE_ERROR = SSN_ECODE_MAKE 2 0 3"
definition SSN_ECODE_OUT_OF_MEMORY :: u32 where "SSN_ECODE_OUT_OF_MEMORY = SSN_ECODE_MAKE 3 0 1"
definition SSN_ECODE_RESOURCE_LIMIT :: u32 where "SSN_ECODE_RESOURCE_LIMIT = SSN_ECODE_MAKE 3 0 2"
definition SSN_ECODE_AUTH_FAILED :: u32 where "SSN_ECODE_AUTH_FAILED = SSN_ECODE_MAKE 4 0 1"
definition SSN_ECODE_ACCESS_DENIED :: u32 where "SSN_ECODE_ACCESS_DENIED = SSN_ECODE_MAKE 4 0 2"
definition SSN_ECODE_SERIALIZE_FAILED :: u32 where "SSN_ECODE_SERIALIZE_FAILED = SSN_ECODE_MAKE 5 0 1"
definition SSN_ECODE_DESERIALIZE_FAILED :: u32 where "SSN_ECODE_DESERIALIZE_FAILED = SSN_ECODE_MAKE 5 0 2"

lemmas ecode_defs = SSN_ECODE_SUCCESS_def SSN_ECODE_INVALID_ARGS_def SSN_ECODE_NOT_FOUND_def
  SSN_ECODE_TIMEOUT_def SSN_ECODE_INTERNAL_def SSN_ECODE_NET_CONNECT_def SSN_ECODE_NET_DISCONNECT_def
  SSN_ECODE_NET_READ_def SSN_ECODE_NET_WRITE_def SSN_ECODE_SERVICE_NOT_FOUND_def
  SSN_ECODE_SERVICE_BUSY_def SSN_ECODE_SERVICE_ERROR_def SSN_ECODE_OUT_OF_MEMORY_def
  SSN_ECODE_RESOURCE_LIMIT_def SSN_ECODE_AUTH_FAILED_def SSN_ECODE_ACCESS_DENIED_def
  SSN_ECODE_SERIALIZE_FAILED_def SSN_ECODE_DESERIALIZE_FAILED_def

definition error_messages :: "(u32 \<times> string) list" where
  "error_messages =
    [(SSN_ECODE_SUCCESS, ''Success''), (SSN_ECODE_INVALID_ARGS, ''Invalid arguments''),
     (SSN_ECODE_NOT_FOUND, ''Not found''), (SSN_ECODE_TIMEOUT, ''Timeout''),
     (SSN_ECODE_INTERNAL, ''Internal error''),
     (SSN_ECODE_NET_CONNECT, ''Network connection failed''),
     (SSN_ECODE_NET_DISCONNECT, ''Network disconnected''),
     (SSN_ECODE_NET_READ, ''Network read failed''), (SSN_ECODE_NET_WRITE, ''Network write failed''),
     (SSN_ECODE_SERVICE_NOT_FOUND, ''Service not found''), (SSN_ECODE_SERVICE_BUSY, ''Service busy''),
     (SSN_ECODE_SERVICE_ERROR, ''Service error''), (SSN_ECODE_OUT_OF_MEMORY, ''Out of memory''),
     (SSN_ECODE_RESOURCE_LIMIT, ''Resource limit exceeded''),
     (SSN_ECODE_AUTH_FAILED, ''Authentication failed''), (SSN_ECODE_ACCESS_DENIED, ''Access denied''),
     (SSN_ECODE_SERIALIZE_FAILED, ''Serialization failed''),
     (SSN_ECODE_DESERIALIZE_FAILED, ''Deserialization failed'')]"

definition ssn_ecode_message :: "u32 \<Rightarrow> string" where
  "ssn_ecode_message e = (case map_of error_messages e of Some m \<Rightarrow> m | None \<Rightarrow> ''Unknown error'')"

definition ssn_ecode_category :: "u32 \<Rightarrow> byte" where
  "ssn_ecode_category e = ucast (drop_bit 24 e AND 0xFF)"

definition ssn_ecode_subcategory :: "u32 \<Rightarrow> byte" where
  "ssn_ecode_subcategory e = ucast (drop_bit 16 e AND 0xFF)"

definition ssn_ecode_code :: "u32 \<Rightarrow> u16" where
  "ssn_ecode_code e = ucast (e AND 0xFFFF)"

lemma bit_ff: "bit (0xFF :: int) n \<longleftrightarrow> n < 8"
proof -
  have m: "(0xFF :: int) = mask 8" by (simp add: mask_eq_exp_minus_1)
  show ?thesis unfolding m bit_mask_iff by auto
qed

lemma bit_ffff: "bit (0xFFFF :: int) n \<longleftrightarrow> n < 16"
proof -
  have m: "(0xFFFF :: int) = mask 16" by (simp add: mask_eq_exp_minus_1)
  show ?thesis unfolding m bit_mask_iff by auto
qed


end
