(* ===== verification/Ssn_Protocol_Base.thy ===== *)
theory Ssn_Protocol_Base
  imports Ssn_Frame Ssn_Error
begin

text \<open>
  What the protocol modules share: the enumerations and the base context of
  \<^verbatim>\<open>protocol/ssn_protocol.h\<close>, the functions of \<^verbatim>\<open>protocol/ssn_protocol.c\<close> that only use the base
  context, and the argument references and the receive step that every module builds in the
  same way.

  A context argument that the code tests for \<^verbatim>\<open>NULL\<close> is an option. A context holds the transport
  it was bound to; on its own (the embedded mode of the header's note) it is the transport's only
  user. A function pointer is a number, as is the \<^verbatim>\<open>void *\<close> argument that goes with it.
\<close>

datatype ssn_protocol_type = SSN_PROTOCOL_RPC | SSN_PROTOCOL_PUBSUB | SSN_PROTOCOL_MSG

datatype ssn_role = SSN_ROLE_REQ | SSN_ROLE_REP | SSN_ROLE_SEND | SSN_ROLE_RECV | SSN_ROLE_PUB | SSN_ROLE_SUB

record ssn_protocol_ctx =
  ctx_type :: ssn_protocol_type
  ctx_role :: ssn_role
  ctx_transport :: "ssn_transport option"
  user_data :: nat

definition ssn_protocol_get_type :: "ssn_protocol_ctx option \<Rightarrow> ssn_protocol_type" where
  "ssn_protocol_get_type ctx = (case ctx of None \<Rightarrow> SSN_PROTOCOL_RPC | Some c \<Rightarrow> ctx_type c)"

definition ssn_protocol_get_role :: "ssn_protocol_ctx option \<Rightarrow> ssn_role" where
  "ssn_protocol_get_role ctx = (case ctx of None \<Rightarrow> SSN_ROLE_REQ | Some c \<Rightarrow> ctx_role c)"

definition ssn_protocol_bind ::
  "ssn_protocol_ctx option \<Rightarrow> ssn_transport option \<Rightarrow> int \<times> ssn_protocol_ctx option" where
  "ssn_protocol_bind ctx t = (case (ctx, t) of
       (Some c, Some _) \<Rightarrow> (0, Some (c\<lparr>ctx_transport := t\<rparr>))
     | _ \<Rightarrow> (-1, ctx))"

definition ssn_protocol_connect ::
  "ssn_protocol_ctx option \<Rightarrow> ssn_transport option \<Rightarrow> int \<times> ssn_protocol_ctx option" where
  "ssn_protocol_connect ctx t = (case (ctx, t) of
       (Some c, Some _) \<Rightarrow> (0, Some (c\<lparr>ctx_transport := t\<rparr>))
     | _ \<Rightarrow> (-1, ctx))"

definition ssn_protocol_is_connected :: "ssn_protocol_ctx option \<Rightarrow> bool" where
  "ssn_protocol_is_connected ctx = (case ctx of
       None \<Rightarrow> False
     | Some c \<Rightarrow> (case ctx_transport c of None \<Rightarrow> False | Some t \<Rightarrow> ssn_transport_is_connected (Some t)))"

section \<open>References built from C arguments\<close>

text \<open>\<^verbatim>\<open>.url_len = (uint16_t)strlen(name)\<close> and \<^verbatim>\<open>.length = (uint32_t)data_len\<close>: both lengths are cut
  to the width of the header field.\<close>

definition name_ref :: "bytes \<Rightarrow> ssn_url_ref" where
  "name_ref name = \<lparr>url_ptr = Some name, url_len = unat (of_nat (length name) :: u16)\<rparr>"

definition payload_ref :: "bytes option \<Rightarrow> nat \<Rightarrow> ssn_data_ref" where
  "payload_ref data data_len = \<lparr>data_ptr = data, data_length = unat (of_nat data_len :: u32)\<rparr>"

text \<open>Memory that holds the bytes the caller claims.\<close>

definition payload_ok :: "bytes option \<Rightarrow> nat \<Rightarrow> bool" where
  "payload_ok data data_len \<longleftrightarrow> data_len < 2 ^ 32 \<and>
     (case data of None \<Rightarrow> data_len = 0 | Some p \<Rightarrow> data_len \<le> length p)"

text \<open>A frame built in a buffer on the stack and sent: the result, the transport afterwards.\<close>

definition send_new ::
  "syscalls \<Rightarrow> ssn_transport \<Rightarrow> byte \<Rightarrow> u32 \<Rightarrow> u16 \<Rightarrow> ssn_url_ref option \<Rightarrow> ssn_data_ref option \<Rightarrow> os \<Rightarrow>
   bool \<times> ssn_transport \<times> os" where
  "send_new sc t ty status seqno url data w =
     (case ssn_send_message sc t (create_header_at [] ty status seqno) url data w of
        (ok, _, t, w) \<Rightarrow> (ok, t, w))"

text \<open>The step every \<^verbatim>\<open>poll\<close> makes first: one \<^verbatim>\<open>recv\<close> and the validation of the packet. \<open>Inl\<close> is the
  value \<^verbatim>\<open>poll\<close> returns at once.\<close>

definition recv_packet ::
  "syscalls \<Rightarrow> ssn_transport \<Rightarrow> int \<Rightarrow> os \<Rightarrow> (int + bytes) \<times> ssn_transport \<times> os" where
  "recv_packet sc t timeout_ms w =
     (case ssn_transport_recv sc t SSN_MAX_PACKET_SIZE timeout_ms w of (len, buf, t, w) \<Rightarrow>
        (if len \<le> 0 then Inl len
         else case ssn_packet_input buf of None \<Rightarrow> Inl (-1) | Some hdr \<Rightarrow> Inr hdr, t, w))"

section \<open>Lemmas\<close>

lemma url_ok_name: "url_ok (Some (name_ref name))"
proof -
  have "unat (of_nat n :: u16) \<le> n" for n by (simp add: unat_of_nat)
  then show ?thesis by (simp add: url_ok_def name_ref_def url_bytes_def min_absorb2)
qed

lemma opt_url_name [simp]: "length name < 2 ^ 16 \<Longrightarrow> opt_url (Some (name_ref name)) = name"
  by (simp add: opt_url_def name_ref_def url_bytes_def)

lemma url_len_name [simp]: "length name < 2 ^ 16 \<Longrightarrow> url_len (name_ref name) = length name"
  by (simp add: name_ref_def)

lemma data_ok_payload: "payload_ok data n \<Longrightarrow> data_ok (Some (payload_ref data n))"
  by (auto simp: payload_ok_def data_ok_def payload_ref_def data_bytes_def split: option.splits)

lemma data_length_payload [simp]: "n < 2 ^ 32 \<Longrightarrow> data_length (payload_ref data n) = n"
  by (simp add: payload_ref_def)

lemma payload_not_rejected:
  "length name < 2 ^ 16 \<Longrightarrow> payload_ok data n \<Longrightarrow> \<not> refs_rejected (Some (name_ref name)) (Some (payload_ref data n))"
  by (auto simp: refs_rejected_def payload_ok_def payload_ref_def name_ref_def split: option.splits)

lemma payload_sendable:
  assumes "length name < 2 ^ 16" "payload_ok data n" "SSN_HEADER_SIZE + length name + n \<le> SSN_MAX_PACKET_SIZE"
  shows "sendable (Some (name_ref name)) (Some (payload_ref data n))"
proof -
  have "n < 2 ^ 32" using assms(2) by (simp add: payload_ok_def)
  with assms payload_not_rejected [OF assms(1,2)] show ?thesis by (simp add: sendable_def total_length_def)
qed

lemma send_new_sends:
  assumes "syscalls_ok sc" "sendable url data" "url_ok url" "data_ok data"
    "send_new sc t ty status seqno url data w = (r, t', w')"
  shows "\<exists>k. sent_prefix (encode_frame (ssn_create_header ty status seqno) url data) (send_timeout t) t w (r, t', w') k"
  using send_message_sends [OF assms(1-4)] assms(5)
  by (fastforce simp: send_new_def create_header_at_def split: prod.splits)

lemma send_new_frame:
  assumes "syscalls_ok sc" "send_new sc t ty status seqno url data w = (r, t', w')"
  shows "send_frame t w t' w'"
  using send_message_frame [OF assms(1)] assms(2) by (auto simp: send_new_def split: prod.splits)

section \<open>A connected transport for examples\<close>

definition example_tr :: ssn_transport where
  "example_tr = the (fst (unix_transport_create sc_ideal None os_init))"

lemma example_tr: "tr_valid example_tr" "0 \<le> tr_fd example_tr" "tr_ops example_tr \<noteq> Udp_ops"
  by (simp_all add: example_tr_def unix_transport_create_def transport_create_def os_calloc_def os_socket_def
      sc_ideal_def fresh_fd_def os_init_def)

end
