(* ===== verification/Ssn_Rpc.thy ===== *)
theory Ssn_Rpc
  imports Ssn_Protocol_Base
begin

text \<open>
  The RPC module \<^verbatim>\<open>protocol/rpc/ssn_rpc.c\<close>: the requester with its pool of pending requests and the
  replier with its method table.

  A pointer to an entry of the pool is its index. A reply handler is code of the application: the
  environment \<open>env\<close> says what the handler with a given number does to the requester (it may call
  \<^verbatim>\<open>ssn_rpc_call\<close>), the operating system and the application's own state. \<open>handlers_ok\<close> is what the
  module relies on: a handler reaches the pool only through the module's functions, so it leaves
  the entries that are in use alone and keeps the pool's invariant (\<open>rpc_call_kept\<close> shows that
  \<^verbatim>\<open>ssn_rpc_call\<close> does).
\<close>

section \<open>Data\<close>

definition RPC_MAX_PENDING :: nat where "RPC_MAX_PENDING = 256"
definition RPC_DEFAULT_TIMEOUT_MS :: u64 where "RPC_DEFAULT_TIMEOUT_MS = 5000"

record rpc_pending_entry =
  pe_seqno :: u16
  pe_timeout_ms :: u64
  pe_callback :: "nat option"
  pe_arg :: nat
  pe_expire :: "int \<times> int"
  in_use :: bool

record ssn_rpc_req =
  req_base :: ssn_protocol_ctx
  on_reply :: "nat option"
  next_seqno :: u16
  pending_pool :: "rpc_pending_entry list"

record rpc_method_entry =
  method_name :: bytes
  me_handler :: nat
  me_arg :: nat

record ssn_rpc_rep =
  rep_base :: ssn_protocol_ctx
  on_request :: "nat option"
  method_table :: "rpc_method_entry ssn_hash_table"
  method_count :: nat

record 'u rpc_st =
  st_req :: ssn_rpc_req
  st_os :: os
  st_user :: 'u

type_synonym 'u reply_env = "nat \<Rightarrow> u16 \<Rightarrow> u32 \<Rightarrow> bytes option \<Rightarrow> nat \<Rightarrow> nat \<Rightarrow> 'u rpc_st \<Rightarrow> 'u rpc_st"

section \<open>The pool\<close>

definition pending_pool_find :: "ssn_rpc_req \<Rightarrow> u16 \<Rightarrow> nat option" where
  "pending_pool_find req seqno =
     List.find (\<lambda>i. in_use (pending_pool req ! i) \<and> pe_seqno (pending_pool req ! i) = seqno)
       [0..<RPC_MAX_PENDING]"

definition pool_set_in_use :: "bool \<Rightarrow> nat \<Rightarrow> ssn_rpc_req \<Rightarrow> ssn_rpc_req" where
  "pool_set_in_use b i req =
     req\<lparr>pending_pool := (pending_pool req)[i := (pending_pool req ! i)\<lparr>in_use := b\<rparr>]\<rparr>"

definition pending_pool_alloc :: "ssn_rpc_req \<Rightarrow> nat option \<times> ssn_rpc_req" where
  "pending_pool_alloc req = (case List.find (\<lambda>i. \<not> in_use (pending_pool req ! i)) [0..<RPC_MAX_PENDING] of
       None \<Rightarrow> (None, req)
     | Some i \<Rightarrow> (Some i, pool_set_in_use True i req))"

definition pending_pool_free :: "ssn_rpc_req \<Rightarrow> nat \<Rightarrow> ssn_rpc_req" where
  "pending_pool_free req i = pool_set_in_use False i req"

section \<open>Creation\<close>

definition zero_entry :: rpc_pending_entry where
  "zero_entry = \<lparr>pe_seqno = 0, pe_timeout_ms = 0, pe_callback = None, pe_arg = 0, pe_expire = (0, 0), in_use = False\<rparr>"

definition ssn_rpc_req_create :: "syscalls \<Rightarrow> nat option \<Rightarrow> nat \<Rightarrow> os \<Rightarrow> ssn_rpc_req option \<times> os" where
  "ssn_rpc_req_create sc handler arg w = (case os_calloc sc w of
       (False, w) \<Rightarrow> (None, w)
     | (True, w) \<Rightarrow> (case os_calloc sc w of
         (False, w) \<Rightarrow> (None, w)
       | (True, w) \<Rightarrow> (Some
           \<lparr>req_base = \<lparr>ctx_type = SSN_PROTOCOL_RPC, ctx_role = SSN_ROLE_REQ, ctx_transport = None, user_data = arg\<rparr>,
            on_reply = handler, next_seqno = 1, pending_pool = replicate RPC_MAX_PENDING zero_entry\<rparr>, w)))"

text \<open>The table is asked for 16 buckets, for which its creation returns (\<open>create_refines\<close>).\<close>

definition ssn_rpc_rep_create :: "syscalls \<Rightarrow> nat option \<Rightarrow> nat \<Rightarrow> os \<Rightarrow> ssn_rpc_rep option \<times> os" where
  "ssn_rpc_rep_create sc handler arg w = (case os_calloc sc w of
       (False, w) \<Rightarrow> (None, w)
     | (True, w) \<Rightarrow> (case ssn_hash_table_create sc 16 w of
         None \<Rightarrow> (None, w)
       | Some (None, w) \<Rightarrow> (None, w)
       | Some (Some t, w) \<Rightarrow> (Some
           \<lparr>rep_base = \<lparr>ctx_type = SSN_PROTOCOL_RPC, ctx_role = SSN_ROLE_REP, ctx_transport = None, user_data = arg\<rparr>,
            on_request = handler, method_table = t, method_count = 0\<rparr>, w)))"

definition ssn_rpc_bind ::
  "ssn_protocol_ctx option \<Rightarrow> ssn_transport option \<Rightarrow> int \<times> ssn_protocol_ctx option" where
  "ssn_rpc_bind ctx t = (case (ctx, t) of
       (Some c, Some _) \<Rightarrow> (0, Some (c\<lparr>ctx_transport := t\<rparr>))
     | _ \<Rightarrow> (-1, ctx))"

definition ssn_rpc_connect ::
  "ssn_protocol_ctx option \<Rightarrow> ssn_transport option \<Rightarrow> int \<times> ssn_protocol_ctx option" where
  "ssn_rpc_connect ctx t = (case (ctx, t) of
       (Some c, Some _) \<Rightarrow> (0, Some (c\<lparr>ctx_transport := t\<rparr>))
     | _ \<Rightarrow> (-1, ctx))"

definition ssn_rpc_is_connected :: "ssn_protocol_ctx option \<Rightarrow> bool" where
  "ssn_rpc_is_connected ctx = (case ctx of
       None \<Rightarrow> False
     | Some c \<Rightarrow> (case ctx_transport c of None \<Rightarrow> False | Some t \<Rightarrow> ssn_transport_is_connected (Some t)))"

section \<open>The method table of the replier\<close>

definition ssn_rpc_register ::
  "syscalls \<Rightarrow> ssn_rpc_rep \<Rightarrow> bytes option \<Rightarrow> nat option \<Rightarrow> nat \<Rightarrow> os \<Rightarrow> int \<times> ssn_rpc_rep \<times> os" where
  "ssn_rpc_register sc rep name handler arg w = (case (name, handler) of
       (Some n, Some h) \<Rightarrow> (case os_calloc sc w of
           (False, w) \<Rightarrow> (-1, rep, w)
         | (True, w) \<Rightarrow>
             (case ssn_hash_table_set_str sc (method_table rep) n
                 (Some \<lparr>method_name = take 63 n, me_handler = h, me_arg = arg\<rparr>) w of
                (False, t, w) \<Rightarrow> (-1, rep\<lparr>method_table := t\<rparr>, w)
              | (True, t, w) \<Rightarrow> (0, rep\<lparr>method_table := t, method_count := Suc (method_count rep)\<rparr>, w)))
     | _ \<Rightarrow> (-1, rep, w))"

definition ssn_rpc_unregister :: "ssn_rpc_rep \<Rightarrow> bytes option \<Rightarrow> int \<times> ssn_rpc_rep" where
  "ssn_rpc_unregister rep name = (case name of
       None \<Rightarrow> (-1, rep)
     | Some n \<Rightarrow> (case ssn_hash_table_get_str (method_table rep) n of
         None \<Rightarrow> (-1, rep)
       | Some entry \<Rightarrow> (0, rep\<lparr>method_table := snd (ssn_hash_table_remove_str (method_table rep) n),
                              method_count := method_count rep - 1\<rparr>)))"

section \<open>Requests\<close>

text \<open>The search for a number that is not in flight; \<open>i\<close> is the loop counter.\<close>

function seqno_loop :: "nat \<Rightarrow> u16 \<Rightarrow> ssn_rpc_req \<Rightarrow> u16 option \<times> ssn_rpc_req" where
  "seqno_loop i seqno req =
     (if i < RPC_MAX_PENDING + 1 then
        if pending_pool_find req seqno = None then (Some seqno, req)
        else
          let seqno = next_seqno req; req = req\<lparr>next_seqno := next_seqno req + 1\<rparr> in
          if i = RPC_MAX_PENDING then (None, req) else seqno_loop (i + 1) seqno req
      else (Some seqno, req))"
  by pat_completeness auto
termination
  by (relation "measure (\<lambda>(i, seqno, req). RPC_MAX_PENDING + 1 - i)") auto

declare seqno_loop.simps [simp del]

text \<open>The deadline: \<^verbatim>\<open>now\<close> plus a number of milliseconds, with the carry of the nanoseconds.\<close>

definition expire_after :: "int \<times> int \<Rightarrow> u64 \<Rightarrow> int \<times> int" where
  "expire_after now ms =
     (let sec = fst now + int (unat ms div 1000); nsec = snd now + int (unat ms mod 1000) * 1000000
      in if nsec \<ge> 1000000000 then (sec + 1, nsec - 1000000000) else (sec, nsec))"

definition fill_entry :: "nat \<Rightarrow> u16 \<Rightarrow> u64 \<Rightarrow> int \<times> int \<Rightarrow> ssn_rpc_req \<Rightarrow> ssn_rpc_req" where
  "fill_entry i seqno timeout_ms now req =
     (let ms = (if timeout_ms \<noteq> 0 then timeout_ms else RPC_DEFAULT_TIMEOUT_MS)
      in req\<lparr>pending_pool := (pending_pool req)[i := (pending_pool req ! i)\<lparr>pe_seqno := seqno, pe_timeout_ms := ms,
             pe_callback := on_reply req, pe_arg := user_data (req_base req), pe_expire := expire_after now ms\<rparr>]\<rparr>)"

definition set_req_transport :: "ssn_transport \<Rightarrow> ssn_rpc_req \<Rightarrow> ssn_rpc_req" where
  "set_req_transport t req = req\<lparr>req_base := (req_base req)\<lparr>ctx_transport := Some t\<rparr>\<rparr>"

definition ssn_rpc_call ::
  "syscalls \<Rightarrow> ssn_rpc_req \<Rightarrow> bytes option \<Rightarrow> bytes option \<Rightarrow> nat \<Rightarrow> u64 \<Rightarrow> os \<Rightarrow> int \<times> ssn_rpc_req \<times> os" where
  "ssn_rpc_call sc req name data data_len timeout_ms w = (case (name, ctx_transport (req_base req)) of
       (Some n, Some t) \<Rightarrow> (case pending_pool_alloc req of
           (None, req) \<Rightarrow> (-1, req, w)
         | (Some i, req) \<Rightarrow>
             (case seqno_loop 0 (next_seqno req) (req\<lparr>next_seqno := next_seqno req + 1\<rparr>) of
                (None, req) \<Rightarrow> (-1, pending_pool_free req i, w)
              | (Some seqno, req) \<Rightarrow> (case os_clock sc w of (now, w) \<Rightarrow>
                  let req = fill_entry i seqno timeout_ms now req in
                  case send_new sc t SSN_MSG_TYPE_RPC_REQUEST 0 seqno
                      (Some (name_ref n)) (Some (payload_ref data data_len)) w of
                    (False, t, w) \<Rightarrow> (-1, pending_pool_free (set_req_transport t req) i, w)
                  | (True, t, w) \<Rightarrow> (0, set_req_transport t req, w))))
     | _ \<Rightarrow> (-1, req, w))"

definition ssn_rpc_response ::
  "syscalls \<Rightarrow> ssn_rpc_rep \<Rightarrow> u16 \<Rightarrow> u32 \<Rightarrow> bytes option \<Rightarrow> nat \<Rightarrow> os \<Rightarrow> int \<times> ssn_rpc_rep \<times> os" where
  "ssn_rpc_response sc rep seqno status data data_len w = (case ctx_transport (rep_base rep) of
       None \<Rightarrow> (-1, rep, w)
     | Some t \<Rightarrow> (case send_new sc t SSN_MSG_TYPE_RPC_REQUEST status seqno None (Some (payload_ref data data_len)) w of
         (ok, t, w) \<Rightarrow> (if ok then 0 else -1, rep\<lparr>rep_base := (rep_base rep)\<lparr>ctx_transport := Some t\<rparr>\<rparr>, w)))"

section \<open>Handling packets\<close>

text \<open>The references of a validated packet.\<close>

definition packet_url :: "bytes \<Rightarrow> ssn_url_ref" where
  "packet_url hdr = (case ssn_get_url hdr of Some u \<Rightarrow> u | None \<Rightarrow> \<lparr>url_ptr = None, url_len = 0\<rparr>)"

definition packet_data :: "bytes \<Rightarrow> ssn_data_ref" where
  "packet_data hdr = (case ssn_get_data hdr of Some d \<Rightarrow> d | None \<Rightarrow> \<lparr>data_ptr = None, data_length = 0\<rparr>)"

definition call_handler ::
  "'u reply_env \<Rightarrow> nat \<Rightarrow> u32 \<Rightarrow> bytes option \<Rightarrow> nat \<Rightarrow> 'u rpc_st \<Rightarrow> 'u rpc_st" where
  "call_handler env i status data data_len st =
     (let e = pending_pool (st_req st) ! i in
      case pe_callback e of None \<Rightarrow> st | Some f \<Rightarrow> env f (pe_seqno e) status data data_len (pe_arg e) st)"

definition free_slot :: "nat \<Rightarrow> 'u rpc_st \<Rightarrow> 'u rpc_st" where
  "free_slot i st = st\<lparr>st_req := pending_pool_free (st_req st) i\<rparr>"

definition ssn_rpc_handle_reply :: "'u reply_env \<Rightarrow> bytes \<Rightarrow> 'u rpc_st \<Rightarrow> int \<times> 'u rpc_st" where
  "ssn_rpc_handle_reply env hdr st =
     (let h = load_header hdr in
      if hdr_msg_type h \<noteq> SSN_MSG_TYPE_RPC_REQUEST then (0, st)
      else case pending_pool_find (st_req st) (ssn_get_seqno h) of
        None \<Rightarrow> (0, st)
      | Some i \<Rightarrow>
          let d = packet_data hdr
          in (1, free_slot i (call_handler env i (ssn_get_status h) (data_ptr d) (data_length d) st)))"

text \<open>The request handler gets the URL pointer, with no length.\<close>

definition ssn_rpc_handle_request ::
  "(nat \<Rightarrow> u16 \<Rightarrow> bytes option \<Rightarrow> bytes option \<Rightarrow> nat \<Rightarrow> nat \<Rightarrow> 's \<Rightarrow> 's) \<Rightarrow> ssn_rpc_rep \<Rightarrow> bytes \<Rightarrow> 's \<Rightarrow> int \<times> 's" where
  "ssn_rpc_handle_request env rep hdr st =
     (let h = load_header hdr in
      if hdr_msg_type h \<noteq> SSN_MSG_TYPE_RPC_REQUEST then (0, st)
      else case on_request rep of
        None \<Rightarrow> (0, st)
      | Some f \<Rightarrow>
          let u = packet_url hdr; d = packet_data hdr
          in (1, env f (ssn_get_seqno h) (url_ptr u) (data_ptr d) (data_length d) (user_data (rep_base rep)) st))"

section \<open>Poll\<close>

definition expired :: "int \<times> int \<Rightarrow> int \<times> int \<Rightarrow> bool" where
  "expired now e \<longleftrightarrow> fst now > fst e \<or> fst now = fst e \<and> snd now \<ge> snd e"

definition expire_slot :: "'u reply_env \<Rightarrow> int \<times> int \<Rightarrow> nat \<Rightarrow> 'u rpc_st \<Rightarrow> 'u rpc_st" where
  "expire_slot env now i st =
     (let e = pending_pool (st_req st) ! i in
      if in_use e \<and> expired now (pe_expire e)
      then free_slot i (call_handler env i SSN_ECODE_TIMEOUT None 0 st) else st)"

definition expire_pending :: "'u reply_env \<Rightarrow> int \<times> int \<Rightarrow> 'u rpc_st \<Rightarrow> 'u rpc_st" where
  "expire_pending env now st = fold (expire_slot env now) [0..<RPC_MAX_PENDING] st"

text \<open>\<^verbatim>\<open>ssn_rpc_poll\<close> of a requester and of a replier.\<close>

definition ssn_rpc_poll_req :: "syscalls \<Rightarrow> 'u reply_env \<Rightarrow> int \<Rightarrow> 'u rpc_st \<Rightarrow> int \<times> 'u rpc_st" where
  "ssn_rpc_poll_req sc env timeout_ms st = (case ctx_transport (req_base (st_req st)) of
       None \<Rightarrow> (-1, st)
     | Some _ \<Rightarrow> (case os_clock sc (st_os st) of (now, w) \<Rightarrow>
         let st = expire_pending env now (st\<lparr>st_os := w\<rparr>) in
         case ctx_transport (req_base (st_req st)) of
           None \<Rightarrow> (-1, st)
         | Some t \<Rightarrow> (case recv_packet sc t timeout_ms (st_os st) of (r, t, w) \<Rightarrow>
             let st = st\<lparr>st_req := set_req_transport t (st_req st), st_os := w\<rparr> in
             case r of
               Inl n \<Rightarrow> (n, st)
             | Inr hdr \<Rightarrow>
                 if hdr_msg_type (load_header hdr) \<noteq> SSN_MSG_TYPE_RPC_REQUEST then (0, st)
                 else (1, snd (ssn_rpc_handle_reply env hdr st)))))"

definition ssn_rpc_poll_rep ::
  "syscalls \<Rightarrow> (nat \<Rightarrow> u16 \<Rightarrow> bytes option \<Rightarrow> bytes option \<Rightarrow> nat \<Rightarrow> nat \<Rightarrow> ssn_rpc_rep \<times> os \<times> 'u \<Rightarrow> ssn_rpc_rep \<times> os \<times> 'u) \<Rightarrow>
   int \<Rightarrow> ssn_rpc_rep \<times> os \<times> 'u \<Rightarrow> int \<times> ssn_rpc_rep \<times> os \<times> 'u" where
  "ssn_rpc_poll_rep sc env timeout_ms st = (case st of (rep, w, u) \<Rightarrow>
     case ctx_transport (rep_base rep) of
       None \<Rightarrow> (-1, rep, w, u)
     | Some t \<Rightarrow> (case recv_packet sc t timeout_ms w of (r, t, w) \<Rightarrow>
         let rep = rep\<lparr>rep_base := (rep_base rep)\<lparr>ctx_transport := Some t\<rparr>\<rparr> in
         case r of
           Inl n \<Rightarrow> (n, rep, w, u)
         | Inr hdr \<Rightarrow> (1, snd (ssn_rpc_handle_request env rep hdr (rep, w, u)))))"

section \<open>The requests in flight\<close>

text \<open>The pool as a map from sequence numbers to entries, and its invariant.\<close>

definition pool_map :: "rpc_pending_entry list \<Rightarrow> u16 \<rightharpoonup> rpc_pending_entry" where
  "pool_map pool s = map_option (\<lambda>i. pool ! i)
     (List.find (\<lambda>i. in_use (pool ! i) \<and> pe_seqno (pool ! i) = s) [0..<RPC_MAX_PENDING])"

definition in_flight :: "ssn_rpc_req \<Rightarrow> u16 \<rightharpoonup> rpc_pending_entry" where
  "in_flight req = pool_map (pending_pool req)"

definition pool_ok :: "rpc_pending_entry list \<Rightarrow> bool" where
  "pool_ok pool \<longleftrightarrow> length pool = RPC_MAX_PENDING \<and>
     (\<forall>i < RPC_MAX_PENDING. \<forall>j < RPC_MAX_PENDING.
        in_use (pool ! i) \<longrightarrow> in_use (pool ! j) \<longrightarrow> pe_seqno (pool ! i) = pe_seqno (pool ! j) \<longrightarrow> i = j)"

definition pool_inv :: "ssn_rpc_req \<Rightarrow> bool" where
  "pool_inv req \<longleftrightarrow> pool_ok (pending_pool req)"

lemma pool_map_Some:
  assumes "pool_ok pool"
  shows "pool_map pool s = Some e \<longleftrightarrow> (\<exists>i < RPC_MAX_PENDING. pool ! i = e \<and> in_use e \<and> pe_seqno e = s)"
proof
  assume "pool_map pool s = Some e"
  then show "\<exists>i < RPC_MAX_PENDING. pool ! i = e \<and> in_use e \<and> pe_seqno e = s"
    by (auto simp: pool_map_def find_upt_Some)
next
  assume "\<exists>i < RPC_MAX_PENDING. pool ! i = e \<and> in_use e \<and> pe_seqno e = s"
  then obtain i where i: "i < RPC_MAX_PENDING" "pool ! i = e" "in_use e" "pe_seqno e = s" by blast
  have "\<not> (in_use (pool ! j) \<and> pe_seqno (pool ! j) = s)" if "j < i" for j
    using assms i that unfolding pool_ok_def by (metis less_trans nat_neq_iff)
  with i have "List.find (\<lambda>i. in_use (pool ! i) \<and> pe_seqno (pool ! i) = s) [0..<RPC_MAX_PENDING] = Some i"
    by (simp add: find_upt_Some)
  then show "pool_map pool s = Some e" using i by (simp add: pool_map_def)
qed

lemma pool_map_None:
  "pool_map pool s = None \<longleftrightarrow> (\<forall>i < RPC_MAX_PENDING. in_use (pool ! i) \<longrightarrow> pe_seqno (pool ! i) \<noteq> s)"
  by (auto simp: pool_map_def find_upt_None)

lemma find_pool_map: "pending_pool_find req s = None \<longleftrightarrow> in_flight req s = None"
  by (simp add: pending_pool_find_def in_flight_def pool_map_def)

lemma find_slot:
  "pending_pool_find req s = Some i \<Longrightarrow>
   i < RPC_MAX_PENDING \<and> in_use (pending_pool req ! i) \<and> pe_seqno (pending_pool req ! i) = s \<and>
   in_flight req s = Some (pending_pool req ! i)"
  by (auto simp: pending_pool_find_def in_flight_def pool_map_def find_upt_Some)

text \<open>Filling a free slot and freeing a slot.\<close>

lemma pool_fill:
  assumes "pool_ok pool" "i < RPC_MAX_PENDING" "\<not> in_use (pool ! i)" "pool_map pool (pe_seqno e) = None" "in_use e"
  shows "pool_ok (pool[i := e])" "pool_map (pool[i := e]) = (pool_map pool)(pe_seqno e \<mapsto> e)"
proof -
  have len: "length pool = RPC_MAX_PENDING" using assms(1) by (simp add: pool_ok_def)
  have other: "pe_seqno (pool ! j) \<noteq> pe_seqno e" if "j < RPC_MAX_PENDING" "in_use (pool ! j)" for j
    using assms(4) that by (simp add: pool_map_None)
  show ok: "pool_ok (pool[i := e])"
    using assms(1,2) other len unfolding pool_ok_def by (auto simp: nth_list_update dest!: other split: if_splits)
  show "pool_map (pool[i := e]) = (pool_map pool)(pe_seqno e \<mapsto> e)"
  proof (rule ext)
    fix s
    have "pool_map (pool[i := e]) s = Some x \<longleftrightarrow> ((pool_map pool)(pe_seqno e \<mapsto> e)) s = Some x" for x
      using assms(2,3,5) other len
      by (auto simp: pool_map_Some [OF ok] pool_map_Some [OF assms(1)] nth_list_update split: if_splits) metis
    then show "pool_map (pool[i := e]) s = ((pool_map pool)(pe_seqno e \<mapsto> e)) s"
      by (metis not_Some_eq)
  qed
qed

lemma pool_clear:
  assumes "pool_ok pool" "i < RPC_MAX_PENDING" "\<not> in_use e"
  shows "pool_ok (pool[i := e])"
    "pool_map (pool[i := e]) = (if in_use (pool ! i) then (pool_map pool)(pe_seqno (pool ! i) := None) else pool_map pool)"
proof -
  have len: "length pool = RPC_MAX_PENDING"
    and uniq: "\<And>j. j < RPC_MAX_PENDING \<Longrightarrow> in_use (pool ! i) \<Longrightarrow> in_use (pool ! j) \<Longrightarrow>
        pe_seqno (pool ! j) = pe_seqno (pool ! i) \<Longrightarrow> j = i"
    using assms(1,2) unfolding pool_ok_def by blast+
  show ok: "pool_ok (pool[i := e])"
    using assms len unfolding pool_ok_def by (auto simp: nth_list_update split: if_splits)
  show "pool_map (pool[i := e]) = (if in_use (pool ! i) then (pool_map pool)(pe_seqno (pool ! i) := None) else pool_map pool)"
    (is "_ = ?m")
  proof (rule ext)
    fix s
    have "pool_map (pool[i := e]) s = Some x \<longleftrightarrow> ?m s = Some x" for x
      using assms(2,3) len
      by (auto simp: pool_map_Some [OF ok] pool_map_Some [OF assms(1)] nth_list_update dest: uniq split: if_splits)
    then show "pool_map (pool[i := e]) s = ?m s" by (metis not_Some_eq)
  qed
qed

text \<open>The search for a number: it changes only the counter, what it returns is not in flight, and it
  cannot fail, because at most 256 of the 257 numbers it tries are in flight.\<close>

lemma seqno_loop_frame: "seqno_loop i s req = (r, req') \<Longrightarrow> \<exists>n. req' = req\<lparr>next_seqno := n\<rparr>"
proof (induction i s req arbitrary: r req' rule: seqno_loop.induct)
  case (1 i s req)
  show ?case
  proof (cases "i < RPC_MAX_PENDING + 1 \<and> pending_pool_find req s \<noteq> None \<and> i \<noteq> RPC_MAX_PENDING")
    case True
    with 1 show ?thesis by (fastforce simp: seqno_loop.simps [of i s req] Let_def)
  next
    case False
    with "1.prems" have "req' = req \<or> req' = req\<lparr>next_seqno := next_seqno req + 1\<rparr>"
      by (auto simp: seqno_loop.simps [of i s req] Let_def split: if_splits)
    moreover have "req = req\<lparr>next_seqno := next_seqno req\<rparr>" by simp
    ultimately show ?thesis by metis
  qed
qed

lemma seqno_loop_Some: "seqno_loop i s req = (Some s', req') \<Longrightarrow> i \<le> RPC_MAX_PENDING \<Longrightarrow> in_flight req s' = None"
proof (induction i s req arbitrary: req' rule: seqno_loop.induct)
  case (1 i s req)
  show ?case
  proof (cases "pending_pool_find req s = None")
    case True
    with 1 show ?thesis by (auto simp: seqno_loop.simps [of i s req] find_pool_map split: if_splits)
  next
    case False
    with "1.prems" have "i < RPC_MAX_PENDING"
      by (auto simp: seqno_loop.simps [of i s req] Let_def split: if_splits)
    with False 1 show ?thesis by (auto simp: seqno_loop.simps [of i s req] Let_def in_flight_def)
  qed
qed

lemma seqno_loop_None:
  "seqno_loop i s req = (None, req') \<Longrightarrow> next_seqno req = s + 1 \<Longrightarrow> i \<le> RPC_MAX_PENDING \<Longrightarrow>
   k \<le> RPC_MAX_PENDING - i \<Longrightarrow> in_flight req (s + of_nat k) \<noteq> None"
proof (induction i s req arbitrary: req' k rule: seqno_loop.induct)
  case (1 i s req)
  have used: "pending_pool_find req s \<noteq> None"
    using "1.prems" by (auto simp: seqno_loop.simps [of i s req] split: if_splits)
  show ?case
  proof (cases k)
    case 0
    with used show ?thesis by (simp add: find_pool_map)
  next
    case (Suc m)
    with "1.prems" have i: "i < RPC_MAX_PENDING" by auto
    let ?req = "req\<lparr>next_seqno := next_seqno req + 1\<rparr>"
    have "seqno_loop (i + 1) (s + 1) ?req = (None, req')"
      using "1.prems" used i by (auto simp: seqno_loop.simps [of i s req] Let_def)
    with "1.IH" [of "next_seqno req" ?req req' m] "1.prems" used i Suc
    have "in_flight ?req (s + 1 + of_nat m) \<noteq> None" by auto
    then show ?thesis using Suc by (simp add: in_flight_def ac_simps)
  qed
qed

lemma in_flight_card: "card (dom (in_flight req)) \<le> RPC_MAX_PENDING" "finite (dom (in_flight req))"
proof -
  have sub: "dom (in_flight req) \<subseteq> (\<lambda>i. pe_seqno (pending_pool req ! i)) ` {..<RPC_MAX_PENDING}"
    by (auto simp: in_flight_def pool_map_def find_upt_Some)
  from card_mono [OF _ this] card_image_le [of "{..<RPC_MAX_PENDING}" "\<lambda>i. pe_seqno (pending_pool req ! i)"]
  show "card (dom (in_flight req)) \<le> RPC_MAX_PENDING" by simp
  from finite_subset [OF sub] show "finite (dom (in_flight req))" by simp
qed

lemma seqno_loop_finds:
  assumes "next_seqno req = s + 1"
  shows "\<exists>s' req'. seqno_loop 0 s req = (Some s', req')"
proof (rule ccontr)
  assume "\<not> ?thesis"
  then obtain req' where n: "seqno_loop 0 s req = (None, req')" by (metis option.exhaust surj_pair)
  let ?f = "\<lambda>k. s + (of_nat k :: u16)"
  have "inj_on ?f {..RPC_MAX_PENDING}"
  proof (rule inj_onI)
    fix x y assume "x \<in> {..RPC_MAX_PENDING}" "y \<in> {..RPC_MAX_PENDING}" "?f x = ?f y"
    then have "unat (of_nat x :: u16) = unat (of_nat y :: u16)" "x < 65536" "y < 65536"
      by (auto simp: RPC_MAX_PENDING_def)
    then show "x = y" by simp
  qed
  then have "card (?f ` {..RPC_MAX_PENDING}) = RPC_MAX_PENDING + 1" by (simp add: card_image)
  moreover have "?f ` {..RPC_MAX_PENDING} \<subseteq> dom (in_flight req)"
    using seqno_loop_None [OF n assms] by auto
  from card_mono [OF in_flight_card(2) this] have "card (?f ` {..RPC_MAX_PENDING}) \<le> card (dom (in_flight req))" .
  ultimately show False using in_flight_card(1) [of req] by simp
qed

section \<open>A request\<close>

lemma alloc_None: "pending_pool_alloc req = (None, req') \<longleftrightarrow>
    req' = req \<and> (\<forall>i < RPC_MAX_PENDING. in_use (pending_pool req ! i))"
  by (auto simp: pending_pool_alloc_def find_upt_None find_upt_Some split: option.splits)

lemma alloc_Some: "pending_pool_alloc req = (Some i, req') \<Longrightarrow>
    i < RPC_MAX_PENDING \<and> \<not> in_use (pending_pool req ! i) \<and> req' = pool_set_in_use True i req"
  by (auto simp: pending_pool_alloc_def find_upt_Some split: option.splits)

lemma in_flight_alloc:
  assumes "pool_inv req" "i < RPC_MAX_PENDING" "in_flight (pool_set_in_use True i req) s = None"
  shows "in_flight req s = None"
proof -
  have len: "length (pending_pool req) = RPC_MAX_PENDING" using assms(1) by (simp add: pool_inv_def pool_ok_def)
  have "in_use (pending_pool (pool_set_in_use True i req) ! j) \<and>
      pe_seqno (pending_pool (pool_set_in_use True i req) ! j) = pe_seqno (pending_pool req ! j)"
    if "j < RPC_MAX_PENDING" "in_use (pending_pool req ! j)" for j
    using that len assms(2) by (simp add: pool_set_in_use_def nth_list_update)
  with assms(3) show ?thesis by (auto simp: in_flight_def pool_map_None)
qed

text \<open>The entry of a request.\<close>

definition new_entry :: "ssn_rpc_req \<Rightarrow> u16 \<Rightarrow> u64 \<Rightarrow> int \<times> int \<Rightarrow> bool \<Rightarrow> rpc_pending_entry" where
  "new_entry req seqno timeout_ms now b =
     (let ms = (if timeout_ms \<noteq> 0 then timeout_ms else RPC_DEFAULT_TIMEOUT_MS)
      in \<lparr>pe_seqno = seqno, pe_timeout_ms = ms, pe_callback = on_reply req, pe_arg = user_data (req_base req),
          pe_expire = expire_after now ms, in_use = b\<rparr>)"

text \<open>The rest of a call once the slot and the number are chosen; \<open>n\<close> is the counter afterwards.\<close>

definition finish_call ::
  "syscalls \<Rightarrow> ssn_rpc_req \<Rightarrow> ssn_transport \<Rightarrow> nat \<Rightarrow> u16 \<Rightarrow> u16 \<Rightarrow> bytes \<Rightarrow> bytes option \<Rightarrow> nat \<Rightarrow> u64 \<Rightarrow> os \<Rightarrow>
   int \<times> ssn_rpc_req \<times> os" where
  "finish_call sc req t i seqno n name data len ms w =
      (case send_new sc t SSN_MSG_TYPE_RPC_REQUEST 0 seqno (Some (name_ref name)) (Some (payload_ref data len)) (os_tick w) of
         (ok, t', w') \<Rightarrow> (if ok then 0 else -1, set_req_transport t' (req\<lparr>next_seqno := n,
            pending_pool := (pending_pool req)[i := new_entry req seqno ms (sc_clock sc (os_calls w)) ok]\<rparr>), w'))"

text \<open>A call with a transport and a free slot: which slot and number it takes, and the rest of the
  call as the result of sending.\<close>

lemma rpc_call_runs:
  assumes inv: "pool_inv req" and t: "ctx_transport (req_base req) = Some t"
    and free: "\<exists>i < RPC_MAX_PENDING. \<not> in_use (pending_pool req ! i)"
  obtains i seqno n where "i < RPC_MAX_PENDING" "\<not> in_use (pending_pool req ! i)" "in_flight req seqno = None"
    "ssn_rpc_call sc req (Some name) data len ms w =
      finish_call sc req t i seqno n name data len ms w"
proof -
  have len: "length (pending_pool req) = RPC_MAX_PENDING" using inv by (simp add: pool_inv_def pool_ok_def)
  obtain r req1 where "pending_pool_alloc req = (r, req1)" by (cases "pending_pool_alloc req")
  with free alloc_None [of req req1] obtain i where a: "pending_pool_alloc req = (Some i, req1)"
    by (cases r) auto
  then have i: "i < RPC_MAX_PENDING" "\<not> in_use (pending_pool req ! i)" and req1: "req1 = pool_set_in_use True i req"
    using alloc_Some by blast+
  let ?req2 = "req1\<lparr>next_seqno := next_seqno req1 + 1\<rparr>"
  obtain seqno req3 where l: "seqno_loop 0 (next_seqno req1) ?req2 = (Some seqno, req3)"
    using seqno_loop_finds [of ?req2 "next_seqno req1"] by auto
  obtain n where req3: "req3 = ?req2\<lparr>next_seqno := n\<rparr>" using seqno_loop_frame [OF l] by blast
  have "in_flight req1 seqno = None" using seqno_loop_Some [OF l] by (simp add: in_flight_def)
  then have fresh: "in_flight req seqno = None" using in_flight_alloc [OF inv i(1)] req1 by simp
  show thesis
  proof (rule that [OF i fresh])
    show "ssn_rpc_call sc req (Some name) data len ms w =
      finish_call sc req t i seqno n name data len ms w"
    proof -
      obtain ok t' w' where sn: "send_new sc t SSN_MSG_TYPE_RPC_REQUEST 0 seqno (Some (name_ref name))
          (Some (payload_ref data len)) (os_tick w) = (ok, t', w')"
        by (metis prod_cases3)
      have "ssn_rpc_call sc req (Some name) data len ms w =
          (let req = fill_entry i seqno ms (sc_clock sc (os_calls w)) req3
           in if ok then (0, set_req_transport t' req, w') else (-1, pending_pool_free (set_req_transport t' req) i, w'))"
        by (simp add: ssn_rpc_call_def t a l os_clock_def sn Let_def split: bool.splits)
      with i len show ?thesis
        by (cases "pending_pool req ! i") (simp add: finish_call_def sn req3 req1 fill_entry_def Let_def new_entry_def pool_set_in_use_def
            pending_pool_free_def set_req_transport_def)
    qed
  qed
qed

lemma in_flight_simps [simp]:
  "in_flight (set_req_transport t req) = in_flight req"
  "in_flight (req\<lparr>next_seqno := n\<rparr>) = in_flight req"
  "in_flight (req\<lparr>pending_pool := p\<rparr>) = pool_map p"
  "pool_inv (set_req_transport t req) = pool_inv req"
  "pool_inv (req\<lparr>next_seqno := n\<rparr>) = pool_inv req"
  "pool_inv (req\<lparr>pending_pool := p\<rparr>) = pool_ok p"
  by (simp_all add: in_flight_def pool_inv_def set_req_transport_def)

lemma new_entry_simps [simp]:
  "pe_seqno (new_entry req s ms now b) = s" "in_use (new_entry req s ms now b) = b"
  by (simp_all add: new_entry_def Let_def)

lemma rpc_call_refused:
  "name = None \<or> ctx_transport (req_base req) = None \<or> (\<forall>i < RPC_MAX_PENDING. in_use (pending_pool req ! i)) \<Longrightarrow>
   ssn_rpc_call sc req name data len ms w = (-1, req, w)"
  using alloc_None [of req req] by (auto simp: ssn_rpc_call_def split: option.splits)

text \<open>What a request leaves alone: the entries in use. \<open>kept\<close> is also what is asked of a handler.\<close>

definition kept :: "ssn_rpc_req \<Rightarrow> ssn_rpc_req \<Rightarrow> bool" where
  "kept req req' \<longleftrightarrow> (pool_inv req \<longrightarrow> pool_inv req') \<and>
     (\<forall>i < RPC_MAX_PENDING. in_use (pending_pool req ! i) \<longrightarrow> pending_pool req' ! i = pending_pool req ! i)"

lemma rpc_call_kept:
  assumes inv: "pool_inv req" and c: "ssn_rpc_call sc req name data len ms w = (r, req', w')"
  shows "kept req req'"
proof (cases "name = None \<or> ctx_transport (req_base req) = None \<or> (\<forall>i < RPC_MAX_PENDING. in_use (pending_pool req ! i))")
  case True
  from rpc_call_refused [OF this, of sc data len ms w] c show ?thesis by (simp add: kept_def)
next
  case False
  then obtain n t where n: "name = Some n" and t: "ctx_transport (req_base req) = Some t"
    and free: "\<exists>i < RPC_MAX_PENDING. \<not> in_use (pending_pool req ! i)" by auto
  have ok: "pool_ok (pending_pool req)" and len: "length (pending_pool req) = RPC_MAX_PENDING"
    using inv by (simp_all add: pool_inv_def pool_ok_def)
  from rpc_call_runs [OF inv t free, of sc n data len ms w] obtain i s k where
    i: "i < RPC_MAX_PENDING" "\<not> in_use (pending_pool req ! i)" "in_flight req s = None"
    and call: "ssn_rpc_call sc req (Some n) data len ms w = finish_call sc req t i s k n data len ms w"
    by blast
  from call c n obtain b t' where req': "req' = set_req_transport t' (req\<lparr>next_seqno := k,
      pending_pool := (pending_pool req)[i := new_entry req s ms (sc_clock sc (os_calls w)) b]\<rparr>)"
    by (auto simp: finish_call_def split: prod.splits)
  have "pool_ok ((pending_pool req)[i := new_entry req s ms (sc_clock sc (os_calls w)) b])"
    using pool_fill(1) [OF ok i(1,2)] pool_clear(1) [OF ok i(1)] i(3) by (cases b) (simp_all add: in_flight_def)
  then show ?thesis using i len unfolding kept_def req'
    by (auto simp: set_req_transport_def pool_inv_def nth_list_update)
qed

section \<open>Replies and deadlines\<close>

definition handlers_ok :: "'u reply_env \<Rightarrow> bool" where
  "handlers_ok env \<longleftrightarrow> (\<forall>f s status d n a st. kept (st_req st) (st_req (env f s status d n a st)))"

lemma call_handler_kept:
  "handlers_ok env \<Longrightarrow> kept (st_req st) (st_req (call_handler env i status d n st))"
  by (auto simp: call_handler_def handlers_ok_def Let_def kept_def split: option.splits)

lemma free_slot_inv:
  "pool_inv (st_req st) \<Longrightarrow> i < RPC_MAX_PENDING \<Longrightarrow> pool_inv (st_req (free_slot i st))"
  using pool_clear(1) [of "pending_pool (st_req st)" i]
  by (simp add: free_slot_def pending_pool_free_def pool_set_in_use_def pool_inv_def)

lemma handle_reply_inv:
  assumes "handlers_ok env" "pool_inv (st_req st)"
  shows "pool_inv (st_req (snd (ssn_rpc_handle_reply env hdr st)))"
proof (cases "pending_pool_find (st_req st) (ssn_get_seqno (load_header hdr))")
  case (Some i)
  then have i: "i < RPC_MAX_PENDING" using find_slot by blast
  have "pool_inv (st_req (call_handler env i status d n st))" for status d n
    using call_handler_kept [OF assms(1)] assms(2) by (simp add: kept_def)
  with Some i assms(2) show ?thesis by (simp add: ssn_rpc_handle_reply_def Let_def free_slot_inv)
qed (use assms(2) in \<open>simp add: ssn_rpc_handle_reply_def Let_def\<close>)

lemma expire_slot_inv:
  assumes "handlers_ok env" "pool_inv (st_req st)" "i < RPC_MAX_PENDING"
  shows "pool_inv (st_req (expire_slot env now i st))"
proof -
  have "pool_inv (st_req (call_handler env i status d n st))" for status d n
    using call_handler_kept [OF assms(1)] assms(2) by (simp add: kept_def)
  with assms(2,3) show ?thesis by (simp add: expire_slot_def Let_def free_slot_inv)
qed

lemma expire_pending_inv:
  assumes "handlers_ok env" "pool_inv (st_req st)"
  shows "pool_inv (st_req (expire_pending env now st))"
proof -
  have "pool_inv (st_req (fold (expire_slot env now) is st))" if "set is \<subseteq> {..<RPC_MAX_PENDING}" for "is"
    using that assms by (induction "is" arbitrary: st) (auto simp: expire_slot_inv)
  then show ?thesis by (simp add: expire_pending_def lessThan_atLeast0)
qed

lemma rpc_poll_inv:
  assumes "handlers_ok env" "pool_inv (st_req st)" "ssn_rpc_poll_req sc env ms st = (r, st')"
  shows "pool_inv (st_req st')"
proof -
  have e: "pool_inv (st_req (expire_pending env now (st\<lparr>st_os := w\<rparr>)))" for now w
    using expire_pending_inv [OF assms(1), of "st\<lparr>st_os := w\<rparr>"] assms(2) by simp
  have h: "pool_inv (st_req (snd (ssn_rpc_handle_reply env hdr (s\<lparr>st_req := set_req_transport t (st_req s), st_os := w\<rparr>))))"
    if "pool_inv (st_req s)" for hdr s t w
    using handle_reply_inv [OF assms(1)] that by simp
  show ?thesis
    using assms(2,3) e h unfolding ssn_rpc_poll_req_def Let_def
    by (auto split: option.splits prod.splits sum.splits if_splits)
qed

section \<open>Properties\<close>


definition example_req :: ssn_rpc_req where
  "example_req = set_req_transport example_tr
     (case ssn_rpc_req_create sc_ideal (Some 2) 9 os_init of (Some req, _) \<Rightarrow> req)"

lemma example_req: "pool_inv example_req" "ctx_transport (req_base example_req) = Some example_tr"
  "\<not> in_use (pending_pool example_req ! 0)"
  by (simp_all add: example_req_def ssn_rpc_req_create_def os_calloc_def sc_ideal_def set_req_transport_def
      pool_inv_def pool_ok_def zero_entry_def RPC_MAX_PENDING_def)

lemma ideal_rpc_call:
  assumes "pool_inv req" "ctx_transport (req_base req) = Some t" "\<exists>i < RPC_MAX_PENDING. \<not> in_use (pending_pool req ! i)"
    "sendable (Some (name_ref name)) (Some (payload_ref data n))" "payload_ok data n"
    "tr_valid t" "0 \<le> tr_fd t" "tr_ops t \<noteq> Udp_ops"
  shows "fst (ssn_rpc_call sc_ideal req (Some name) data n ms w) = 0"
proof -
  have "fst (send_new sc_ideal t ty st s (Some (name_ref name)) (Some (payload_ref data n)) w)" for ty st s w
    using ideal_send_message [OF assms(4) url_ok_name data_ok_payload [OF assms(5)] assms(6-8)]
    by (simp add: send_new_def split: prod.splits) (metis fst_conv)
  moreover obtain i s m where "ssn_rpc_call sc_ideal req (Some name) data n ms w =
      finish_call sc_ideal req t i s m name data n ms w"
    using rpc_call_runs [OF assms(1-3), of sc_ideal name data n ms w] by blast
  ultimately show ?thesis by (simp add: finish_call_def split_beta)
qed


text \<open>The runs of a requester: created, connected, then calls and polls in any order.\<close>

inductive rpc_reachable :: "syscalls \<Rightarrow> 'u reply_env \<Rightarrow> 'u rpc_st \<Rightarrow> bool" for sc env where
  created: "ssn_rpc_req_create sc h a w = (Some req, w') \<Longrightarrow>
    rpc_reachable sc env \<lparr>st_req = req, st_os = w', st_user = u\<rparr>"
| connected: "rpc_reachable sc env st \<Longrightarrow> ssn_rpc_connect (Some (req_base (st_req st))) t = (r, Some c) \<Longrightarrow>
    rpc_reachable sc env (st\<lparr>st_req := (st_req st)\<lparr>req_base := c\<rparr>\<rparr>)"
| called: "rpc_reachable sc env st \<Longrightarrow> ssn_rpc_call sc (st_req st) name data n ms (st_os st) = (r, req', w') \<Longrightarrow>
    rpc_reachable sc env (st\<lparr>st_req := req', st_os := w'\<rparr>)"
| polled: "rpc_reachable sc env st \<Longrightarrow> ssn_rpc_poll_req sc env ms st = (r, st') \<Longrightarrow> rpc_reachable sc env st'"

lemma create_pool_inv: "ssn_rpc_req_create sc h a w = (Some req, w') \<Longrightarrow> pool_inv req"
  by (auto simp: ssn_rpc_req_create_def pool_inv_def pool_ok_def zero_entry_def split: prod.splits bool.splits)

lemma reachable_pool_inv:
  assumes "rpc_reachable sc env st" "handlers_ok env"
  shows "pool_inv (st_req st)"
  using assms(1)
proof induction
  case (created h a w req w' u)
  then show ?case by (simp add: create_pool_inv)
next
  case (connected st t r c)
  then show ?case by (simp add: pool_inv_def)
next
  case (called st name data n ms r req' w')
  then show ?case using rpc_call_kept [OF called.IH called.hyps(2)] by (simp add: kept_def)
next
  case (polled st ms r st')
  then show ?case using rpc_poll_inv [OF assms(2)] by blast
qed

lemma distinct_map_filter_nth:
  "\<forall>i < length xs. \<forall>j < length xs. P (xs ! i) \<longrightarrow> P (xs ! j) \<longrightarrow> f (xs ! i) = f (xs ! j) \<longrightarrow> i = j \<Longrightarrow>
   distinct (map f (filter P xs))"
proof (induction xs)
  case (Cons x xs)
  have "\<forall>i < length xs. \<forall>j < length xs. P (xs ! i) \<longrightarrow> P (xs ! j) \<longrightarrow> f (xs ! i) = f (xs ! j) \<longrightarrow> i = j"
    using Cons.prems by (metis Suc_inject Suc_less_eq length_Cons nth_Cons_Suc)
  moreover have "f x \<noteq> f y" if "P x" "y \<in> set xs" "P y" for y
  proof -
    from that(2) obtain j where "j < length xs" "y = xs ! j" by (metis in_set_conv_nth)
    with Cons.prems that show ?thesis by (metis nth_Cons_0 nth_Cons_Suc Suc_less_eq length_Cons zero_less_Suc nat.distinct(1))
  qed
  ultimately show ?case using Cons.IH by auto
qed simp

text \<open>C9. Whatever sequence of calls and polls a requester goes through, with reply handlers that
  may themselves call the module, its pool keeps 256 slots and no two pending requests share a
  sequence number, so that a reply can be matched to one request only.\<close>

theorem rpc_seqnos_distinct:
  assumes "handlers_ok env" "rpc_reachable sc env st"
  shows "length (pending_pool (st_req st)) = RPC_MAX_PENDING \<and>
    distinct (map pe_seqno (filter in_use (pending_pool (st_req st))))"
  using reachable_pool_inv [OF assms(2,1)] distinct_map_filter_nth [of "pending_pool (st_req st)" in_use pe_seqno]
  by (auto simp: pool_inv_def pool_ok_def)

text \<open>An application that records what its reply handlers are called with.\<close>

definition recording :: "(nat \<times> u16 \<times> u32 \<times> bytes option \<times> nat \<times> nat) list reply_env" where
  "recording f s status d n a st = st\<lparr>st_user := st_user st @ [(f, s, status, d, n, a)]\<rparr>"

lemma recording_ok: "handlers_ok recording"
  by (simp add: handlers_ok_def recording_def kept_def)

lemma example_st_reachable:
  "rpc_reachable sc_ideal recording \<lparr>st_req = example_req, st_os = snd (ssn_rpc_req_create sc_ideal (Some 2) 9 os_init), st_user = []\<rparr>"
proof -
  obtain req w where c: "ssn_rpc_req_create sc_ideal (Some 2) 9 os_init = (Some req, w)"
    by (simp add: ssn_rpc_req_create_def os_calloc_def sc_ideal_def)
  have e: "example_req = set_req_transport example_tr req" by (simp add: example_req_def c)
  from rpc_reachable.connected [OF rpc_reachable.created [OF c, of recording "[]"], of "Some example_tr" 0]
  show ?thesis by (simp add: ssn_rpc_connect_def e c set_req_transport_def)
qed

theorem rpc_seqnos_distinct_witness:
  "\<exists>st. rpc_reachable sc_ideal recording st \<and> in_flight (st_req st) \<noteq> Map.empty \<and>
     distinct (map pe_seqno (filter in_use (pending_pool (st_req st))))"
proof -
  let ?w = "snd (ssn_rpc_req_create sc_ideal (Some 2) 9 os_init)"
  obtain r req' w' where c: "ssn_rpc_call sc_ideal example_req (Some [47, 97]) (Some [1, 2, 3]) 3 0 ?w = (r, req', w')"
    by (metis prod_cases3)
  let ?st = "\<lparr>st_req = req', st_os = w', st_user = []\<rparr>"
  have reach: "rpc_reachable sc_ideal recording ?st"
    using rpc_reachable.called [OF example_st_reachable, of "Some [47, 97]" "Some [1, 2, 3]" 3 0 r req' w'] c by simp
  have free: "\<exists>i < RPC_MAX_PENDING. \<not> in_use (pending_pool example_req ! i)"
    using example_req(3) by (intro exI [of _ 0]) (simp add: RPC_MAX_PENDING_def)
  have p: "payload_ok (Some [1, 2, 3]) 3" by (simp add: payload_ok_def)
  have s: "sendable (Some (name_ref [47, 97])) (Some (payload_ref (Some [1, 2, 3]) 3))"
    by (rule payload_sendable) (simp_all add: p frame_consts)
  obtain i q m where i: "i < RPC_MAX_PENDING" and f: "ssn_rpc_call sc_ideal example_req (Some [47, 97]) (Some [1, 2, 3]) 3 0 ?w =
      finish_call sc_ideal example_req example_tr i q m [47, 97] (Some [1, 2, 3]) 3 0 ?w"
    using rpc_call_runs [OF example_req(1,2) free] by blast
  have r: "r = 0" using ideal_rpc_call [OF example_req(1,2) free s p example_tr] c by (metis fst_conv)
  have "in_use (pending_pool req' ! i)"
    using f c i r example_req(1)
    by (auto simp: finish_call_def set_req_transport_def pool_inv_def pool_ok_def split: prod.splits if_splits)
  then have "in_flight req' (pe_seqno (pending_pool req' ! i)) \<noteq> None" using i by (auto simp: in_flight_def pool_map_None)
  then have "in_flight (st_req ?st) \<noteq> Map.empty" by auto
  with reach rpc_seqnos_distinct [OF recording_ok reach] show ?thesis by blast
qed

lemma packet_data_frame:
  assumes "sendable u d" "url_ok u" "data_ok d" "header_ok h"
  shows "data_bytes (packet_data (encode_frame h u d)) = opt_data d"
    "data_length (packet_data (encode_frame h u d)) = length (opt_data d)"
  using get_data_encode_frame [OF assms, of "[]"] by (auto simp: packet_data_def)

lemma frame_fields [simp]:
  "hdr_msg_type (load_header (encode_frame (ssn_create_header ty status seqno) u d)) = ty"
  "ssn_get_seqno (load_header (encode_frame (ssn_create_header ty status seqno) u d)) = seqno"
  "ssn_get_status (load_header (encode_frame (ssn_create_header ty status seqno) u d)) = status"
  using load_encode_frame [of "ssn_create_header ty status seqno" u d "[]"]
  by (simp_all add: ssn_get_seqno_def ssn_get_status_def ssn_create_header_def ssn_set_seqno_def ssn_set_status_def)

text \<open>C23. A reply frame completes exactly the request it answers: when a request with its sequence
  number is pending, that request's handler is called once with the status and the data of the
  frame, and afterwards the request is no longer pending while every other one still is; a frame
  with any other number changes nothing.\<close>

theorem rpc_reply_matched:
  assumes env: "handlers_ok env" and inv: "pool_inv (st_req st)" and d: "sendable None (Some d)" "data_ok (Some d)"
    and p_def: "p = encode_frame (ssn_create_header SSN_MSG_TYPE_RPC_REQUEST status seqno) None (Some d)"
  shows "case in_flight (st_req st) seqno of
      None \<Rightarrow> ssn_rpc_handle_reply env p st = (0, st)
    | Some e \<Rightarrow> \<exists>ptr st1 st'. ssn_rpc_handle_reply env p st = (1, st') \<and>
        data_bytes \<lparr>data_ptr = ptr, data_length = length (data_bytes d)\<rparr> = data_bytes d \<and>
        st1 = (case pe_callback e of None \<Rightarrow> st
               | Some f \<Rightarrow> env f seqno status ptr (length (data_bytes d)) (pe_arg e) st) \<and>
        st_os st' = st_os st1 \<and> st_user st' = st_user st1 \<and>
        in_flight (st_req st') = (in_flight (st_req st1))(seqno := None)"
proof (cases "pending_pool_find (st_req st) seqno")
  case None
  then have "in_flight (st_req st) seqno = None" by (simp add: find_pool_map)
  with None show ?thesis by (simp add: ssn_rpc_handle_reply_def p_def)
next
  case (Some i)
  note slot = find_slot [OF Some]
  let ?e = "pending_pool (st_req st) ! i" and ?n = "length (data_bytes d)" and ?ptr = "data_ptr (packet_data p)"
  have "url_ok None" by (simp add: url_ok_def)
  note pd = packet_data_frame [OF d(1) this d(2) create_header_ok]
  have len: "data_length (packet_data p) = ?n" and bs: "data_bytes (packet_data p) = data_bytes d"
    using pd by (simp_all add: p_def opt_data_def)
  define st1 where "st1 = call_handler env i status ?ptr ?n st"
  have st1: "st1 = (case pe_callback ?e of None \<Rightarrow> st | Some f \<Rightarrow> env f seqno status ?ptr ?n (pe_arg ?e) st)"
    using slot by (simp add: st1_def call_handler_def Let_def split: option.split)
  have k: "kept (st_req st) (st_req st1)" unfolding st1_def by (rule call_handler_kept [OF env])
  have pool: "pool_ok (pending_pool (st_req st1))" and same: "pending_pool (st_req st1) ! i = ?e"
    using k inv slot by (simp_all add: kept_def pool_inv_def)
  have "in_flight (st_req (free_slot i st1)) = (in_flight (st_req st1))(seqno := None)"
    using pool_clear(2) [OF pool, of i "?e\<lparr>in_use := False\<rparr>"] slot same
    by (simp add: free_slot_def pending_pool_free_def pool_set_in_use_def in_flight_def)
  moreover have "ssn_rpc_handle_reply env p st = (1, free_slot i st1)"
    using Some len by (simp add: ssn_rpc_handle_reply_def st1_def p_def Let_def)
  moreover have "data_bytes \<lparr>data_ptr = ?ptr, data_length = ?n\<rparr> = data_bytes d"
    using bs len by (cases "packet_data p") simp
  moreover have "st_os (free_slot i st1) = st_os st1" "st_user (free_slot i st1) = st_user st1"
    by (simp_all add: free_slot_def)
  ultimately show ?thesis using slot st1 by auto
qed

definition waiting_req :: ssn_rpc_req where
  "waiting_req = example_req\<lparr>pending_pool := (pending_pool example_req)[3 := new_entry example_req 7 0 (0, 0) True]\<rparr>"

lemma waiting_req: "pool_inv waiting_req" "in_flight waiting_req = [7 \<mapsto> new_entry example_req 7 0 (0, 0) True]"
proof -
  have ok: "pool_ok (pending_pool example_req)" using example_req(1) by (simp add: pool_inv_def)
  have none: "\<not> in_use (pending_pool example_req ! i)" if "i < RPC_MAX_PENDING" for i
    using that by (simp add: example_req_def ssn_rpc_req_create_def os_calloc_def sc_ideal_def set_req_transport_def zero_entry_def)
  then have empty: "pool_map (pending_pool example_req) = Map.empty" by (auto simp: pool_map_None fun_eq_iff)
  have three: "3 < RPC_MAX_PENDING" by (simp add: RPC_MAX_PENDING_def)
  note f = pool_fill [OF ok three none [OF three], of "new_entry example_req 7 0 (0, 0) True"]
  show "pool_inv waiting_req" "in_flight waiting_req = [7 \<mapsto> new_entry example_req 7 0 (0, 0) True]"
    using f by (simp_all add: waiting_req_def empty)
qed

theorem rpc_reply_matched_witness:
  "\<exists>ptr st'. ssn_rpc_handle_reply recording
      (encode_frame (ssn_create_header SSN_MSG_TYPE_RPC_REQUEST 0 7) None (Some example_data))
      \<lparr>st_req = waiting_req, st_os = os_init, st_user = []\<rparr> = (1, st') \<and>
     st_user st' = [(2, 7, 0, ptr, 3, 9)] \<and> data_bytes \<lparr>data_ptr = ptr, data_length = 3\<rparr> = [1, 2, 3] \<and>
     in_flight (st_req st') = Map.empty"
proof -
  have s: "sendable None (Some example_data)"
    by (simp add: sendable_def refs_rejected_def total_length_def frame_consts example_data_def)
  have b: "data_bytes example_data = [1, 2, 3]" by (simp add: data_bytes_def example_data_def)
  have e: "pe_callback (new_entry example_req 7 0 (0, 0) True) = Some 2" "pe_arg (new_entry example_req 7 0 (0, 0) True) = 9"
    by (simp_all add: new_entry_def example_req_def ssn_rpc_req_create_def os_calloc_def sc_ideal_def set_req_transport_def Let_def)
  let ?st = "\<lparr>st_req = waiting_req, st_os = os_init, st_user = []\<rparr>"
  have inv: "pool_inv (st_req ?st)" using waiting_req(1) by simp
  from rpc_reply_matched [OF recording_ok inv s example_sendable(3) refl, of 0 7]
  show ?thesis by (auto simp: waiting_req(2) b e recording_def numeral_3_eq_3)
qed

section \<open>Deadlines\<close>

definition in_ns :: "int \<times> int \<Rightarrow> int" where
  "in_ns t = fst t * 1000000000 + snd t"

lemma expired_iff:
  assumes "0 \<le> snd now" "snd now < 1000000000" "0 \<le> snd e" "snd e < 1000000000"
  shows "expired now e \<longleftrightarrow> in_ns e \<le> in_ns now"
proof (cases "fst now" "fst e" rule: linorder_cases)
  case less
  then have "fst now + 1 \<le> fst e" by simp
  then have "(fst now + 1) * 1000000000 \<le> fst e * 1000000000" by (rule mult_right_mono) simp
  with less assms show ?thesis by (simp add: expired_def in_ns_def)
next
  case greater
  then have "fst e + 1 \<le> fst now" by simp
  then have "(fst e + 1) * 1000000000 \<le> fst now * 1000000000" by (rule mult_right_mono) simp
  with greater assms show ?thesis by (simp add: expired_def in_ns_def)
qed (simp add: expired_def in_ns_def)

lemma expire_after_ns:
  assumes "0 \<le> snd now" "snd now < 1000000000"
  shows "in_ns (expire_after now ms) = in_ns now + uint ms * 1000000"
    "0 \<le> snd (expire_after now ms)" "snd (expire_after now ms) < 1000000000"
proof -
  have "int (unat ms) = int (unat ms div 1000 * 1000 + unat ms mod 1000)" by (simp only: div_mult_mod_eq)
  then have m: "uint ms = int (unat ms div 1000) * 1000 + int (unat ms mod 1000)"
    by (simp only: of_nat_add of_nat_mult of_nat_numeral of_nat_unat)
  have r: "int (unat ms mod 1000) < 1000" by simp
  show "in_ns (expire_after now ms) = in_ns now + uint ms * 1000000"
    using assms by (simp add: expire_after_def in_ns_def Let_def m algebra_simps)
  show "0 \<le> snd (expire_after now ms)" "snd (expire_after now ms) < 1000000000"
    using assms by (simp_all add: expire_after_def Let_def) (use r in linarith)
qed

text \<open>C28. The deadline of a request is its timeout after the clock reading at the call, to the
  nanosecond, with the default of 5 seconds for a timeout of 0: with normalised clock readings, a
  later reading counts as expired exactly when at least that many milliseconds have passed.\<close>

theorem rpc_deadline_exact:
  assumes "0 \<le> snd start" "snd start < 1000000000" "0 \<le> snd now" "snd now < 1000000000"
  shows "expired now (pe_expire (new_entry req seqno ms start b)) \<longleftrightarrow>
    in_ns start + (if ms = 0 then 5000 else uint ms) * 1000000 \<le> in_ns now"
proof -
  have d: "uint RPC_DEFAULT_TIMEOUT_MS = 5000" by (simp add: RPC_DEFAULT_TIMEOUT_MS_def)
  note e = expire_after_ns [OF assms(1,2)]
  show ?thesis
    using expired_iff [OF assms(3,4) e(2,3), of RPC_DEFAULT_TIMEOUT_MS] expired_iff [OF assms(3,4) e(2,3), of ms]
    by (auto simp: new_entry_def Let_def e(1) d)
qed

theorem rpc_deadline_exact_witness:
  "expired (12, 500000000) (pe_expire (new_entry example_req 7 1600 (10, 900000000) True)) \<and>
   \<not> expired (12, 499999999) (pe_expire (new_entry example_req 7 1600 (10, 900000000) True))"
  using rpc_deadline_exact [of "(10, 900000000)" "(12, 500000000)" example_req 7 1600 True]
    rpc_deadline_exact [of "(10, 900000000)" "(12, 499999999)" example_req 7 1600 True]
  by (simp add: in_ns_def)

text \<open>What the pass over the slots does, slot by slot, for the application that records its calls.\<close>

definition timed_out :: "int \<times> int \<Rightarrow> rpc_pending_entry \<Rightarrow> bool" where
  "timed_out now e \<longleftrightarrow> in_use e \<and> expired now (pe_expire e)"

definition timeout_call :: "rpc_pending_entry \<Rightarrow> (nat \<times> u16 \<times> u32 \<times> bytes option \<times> nat \<times> nat) list" where
  "timeout_call e = (case pe_callback e of None \<Rightarrow> []
     | Some f \<Rightarrow> [(f, pe_seqno e, SSN_ECODE_TIMEOUT, None, 0, pe_arg e)])"

definition cleared :: "int \<times> int \<Rightarrow> rpc_pending_entry \<Rightarrow> rpc_pending_entry" where
  "cleared now e = (if timed_out now e then e\<lparr>in_use := False\<rparr> else e)"

lemma expire_slot_recording:
  "expire_slot recording now i st =
     st\<lparr>st_req := (st_req st)\<lparr>pending_pool := (pending_pool (st_req st))[i := cleared now (pending_pool (st_req st) ! i)]\<rparr>,
        st_user := st_user st @ (if timed_out now (pending_pool (st_req st) ! i) then timeout_call (pending_pool (st_req st) ! i) else [])\<rparr>"
  by (auto simp: expire_slot_def timed_out_def cleared_def timeout_call_def free_slot_def call_handler_def Let_def
      recording_def pending_pool_free_def pool_set_in_use_def split: option.splits)

lemma expire_slots_recording:
  "k \<le> length (pending_pool (st_req st)) \<Longrightarrow> fold (expire_slot recording now) [0..<k] st =
     st\<lparr>st_req := (st_req st)\<lparr>pending_pool := map (cleared now) (take k (pending_pool (st_req st))) @ drop k (pending_pool (st_req st))\<rparr>,
        st_user := st_user st @ concat (map timeout_call (filter (timed_out now) (take k (pending_pool (st_req st)))))\<rparr>"
proof (induction k)
  case (Suc k)
  let ?p = "pending_pool (st_req st)"
  have k: "k < length ?p" using Suc.prems by simp
  have d: "drop k ?p = ?p ! k # drop (Suc k) ?p" using k by (simp add: Cons_nth_drop_Suc)
  have "(map (cleared now) (take k ?p) @ drop k ?p) ! k = ?p ! k"
    "(map (cleared now) (take k ?p) @ drop k ?p)[k := cleared now (?p ! k)] =
       map (cleared now) (take (Suc k) ?p) @ drop (Suc k) ?p"
    using k by (simp_all add: nth_append take_Suc_conv_app_nth d list_update_append)
  with Suc k show ?case
    by (simp add: expire_slot_recording take_Suc_conv_app_nth)
qed simp

text \<open>C24. A poll reports every overdue request once: for an application whose handlers record their
  calls, the handlers of exactly the pending requests whose deadline has passed are called, once
  each, in the order of the slots, with status TIMEOUT and no data; those slots are free again and
  every other slot is untouched.\<close>

theorem rpc_timeouts_reported:
  assumes "pool_inv (st_req st)"
  shows "st_user (expire_pending recording now st) = st_user st @
      concat (map timeout_call (filter (timed_out now) (pending_pool (st_req st)))) \<and>
    pending_pool (st_req (expire_pending recording now st)) = map (cleared now) (pending_pool (st_req st)) \<and>
    filter (timed_out now) (pending_pool (st_req (expire_pending recording now st))) = []"
proof -
  have l: "length (pending_pool (st_req st)) = RPC_MAX_PENDING"
    using assms by (simp add: pool_inv_def pool_ok_def)
  have "\<not> timed_out now (cleared now e)" for e by (simp add: cleared_def timed_out_def)
  then show ?thesis
    using expire_slots_recording [of RPC_MAX_PENDING st now] by (simp add: expire_pending_def l filter_map comp_def)
qed

theorem rpc_timeouts_reported_witness:
  "st_user (expire_pending recording (100, 0) \<lparr>st_req = waiting_req, st_os = os_init, st_user = []\<rparr>) =
     [(2, 7, SSN_ECODE_TIMEOUT, None, 0, 9)]"
proof -
  let ?e = "new_entry example_req 7 0 (0, 0) True"
  have f: "filter (timed_out now) (replicate n zero_entry) = []" for now n
    by (simp add: timed_out_def zero_entry_def)
  have p: "pending_pool example_req = replicate 3 zero_entry @ zero_entry # replicate 252 zero_entry"
    using replicate_add [of 3 "Suc 252" zero_entry, unfolded replicate_Suc]
    by (simp add: example_req_def ssn_rpc_req_create_def os_calloc_def sc_ideal_def set_req_transport_def
        RPC_MAX_PENDING_def)
  have w: "pending_pool waiting_req = replicate 3 zero_entry @ ?e # replicate 252 zero_entry"
    by (simp add: waiting_req_def p list_update_append)
  have e: "timed_out (100, 0) ?e" "timeout_call ?e = [(2, 7, SSN_ECODE_TIMEOUT, None, 0, 9)]"
    by (simp_all add: timed_out_def timeout_call_def new_entry_def expired_def expire_after_def RPC_DEFAULT_TIMEOUT_MS_def
        example_req_def ssn_rpc_req_create_def os_calloc_def sc_ideal_def set_req_transport_def Let_def)
  from rpc_timeouts_reported [of "\<lparr>st_req = waiting_req, st_os = os_init, st_user = []\<rparr>" "(100, 0)"] waiting_req(1)
  show ?thesis by (simp add: w f e)
qed

section \<open>From the requester to the replier\<close>

text \<open>C26. A request frame reaches the replier's handler with the sequence number, the data and
  the data length of the call, and with a pointer to the method name inside the packet. No NUL
  follows the name there: the bytes after it are the data, so a handler that reads the name as a
  C string reads a longer name whenever the data does not begin with a zero byte.\<close>

theorem rpc_request_decoded:
  assumes name: "name \<noteq> []" "0 \<notin> set name" "length name < 2 ^ 16" and n: "payload_ok data n"
    and s: "sendable (Some (name_ref name)) (Some (payload_ref data n))" and f: "on_request rep = Some f"
  shows "\<exists>dptr. ssn_rpc_handle_request env rep
        (encode_frame (ssn_create_header SSN_MSG_TYPE_RPC_REQUEST 0 seqno) (Some (name_ref name)) (Some (payload_ref data n))) st =
      (1, env f seqno (Some (name @ opt_data (Some (payload_ref data n)))) dptr n (user_data (rep_base rep)) st) \<and>
    data_bytes \<lparr>data_ptr = dptr, data_length = n\<rparr> = data_bytes (payload_ref data n) \<and>
    (\<forall>b bs. data_bytes (payload_ref data n) = b # bs \<and> b \<noteq> 0 \<longrightarrow>
       cstr (name @ opt_data (Some (payload_ref data n))) \<noteq> name)"
proof -
  let ?h = "ssn_create_header SSN_MSG_TYPE_RPC_REQUEST 0 seqno" and ?u = "Some (name_ref name)"
    and ?d = "Some (payload_ref data n)"
  let ?p = "encode_frame ?h ?u ?d"
  note pd = packet_data_frame [OF s url_ok_name data_ok_payload [OF n] create_header_ok, of SSN_MSG_TYPE_RPC_REQUEST 0 seqno]
  have len: "length (data_bytes (payload_ref data n)) = n"
    using data_ok_payload [OF n] n by (simp add: data_ok_def payload_ok_def)
  then have pdn: "data_length (packet_data ?p) = n" "data_bytes (packet_data ?p) = data_bytes (payload_ref data n)"
    using pd by (simp_all add: opt_data_def)
  have "load_header ?p = set_lengths ?h ?u ?d" using load_encode_frame [of ?h ?u ?d "[]"] by simp
  then have "unat (ssn_get_url_length (load_header ?p)) = length name"
    using set_lengths_url [OF s, of ?h] name(3) by simp
  then have u: "url_ptr (packet_url ?p) = Some (name @ opt_data ?d)"
    using name create_header_ok [of SSN_MSG_TYPE_RPC_REQUEST 0 seqno]
    by (simp add: packet_url_def ssn_get_url_def Let_def \<open>load_header ?p = _\<close> header_ok_def encode_frame_def)
  have "data_bytes \<lparr>data_ptr = data_ptr (packet_data ?p), data_length = n\<rparr> = data_bytes (payload_ref data n)"
    using pdn by (cases "packet_data ?p") simp
  moreover have "ssn_rpc_handle_request env rep ?p st =
      (1, env f seqno (Some (name @ opt_data ?d)) (data_ptr (packet_data ?p)) n (user_data (rep_base rep)) st)"
    by (simp add: ssn_rpc_handle_request_def f u pdn)
  moreover have "cstr (name @ b # bs) \<noteq> name" if "b \<noteq> 0" for b bs
  proof -
    have "cstr (name @ b # bs) = name @ cstr (b # bs)"
      unfolding cstr_def by (rule takeWhile_append2) (use name(2) in metis)
    with that show ?thesis by (simp add: cstr_def)
  qed
  ultimately show ?thesis by (auto simp: opt_data_def)
qed

theorem rpc_request_decoded_witness:
  "\<exists>dptr. ssn_rpc_handle_request (\<lambda>f s u d n a st. st @ [(f, s, u, d, n, a)])
      \<lparr>rep_base = \<lparr>ctx_type = SSN_PROTOCOL_RPC, ctx_role = SSN_ROLE_REP, ctx_transport = None, user_data = 5\<rparr>,
       on_request = Some 4, method_table = empty_table 16, method_count = 0\<rparr>
      (encode_frame (ssn_create_header SSN_MSG_TYPE_RPC_REQUEST 0 7) (Some (name_ref [47, 97])) (Some (payload_ref (Some [1, 2, 3]) 3))) [] =
      (1, [(4, 7, Some [47, 97, 1, 2, 3], dptr, 3, 5)]) \<and> cstr [47, 97, 1, 2, 3] \<noteq> [47, 97]"
proof -
  have p: "payload_ok (Some [1, 2, 3]) 3" by (simp add: payload_ok_def)
  have s: "sendable (Some (name_ref [47, 97])) (Some (payload_ref (Some [1, 2, 3]) 3))"
    by (rule payload_sendable) (simp_all add: p frame_consts)
  have d: "data_bytes (payload_ref (Some [1, 2, 3]) 3) = [1, 2, 3]" by (simp add: data_bytes_def payload_ref_def)
  show ?thesis
    using rpc_request_decoded [OF _ _ _ p s, where env = "\<lambda>f s u d n a st. st @ [(f, s, u, d, n, a)]" and st = "[]"
        and seqno = 7 and f = 4 and rep = "\<lparr>rep_base = \<lparr>ctx_type = SSN_PROTOCOL_RPC, ctx_role = SSN_ROLE_REP,
          ctx_transport = None, user_data = 5\<rparr>, on_request = Some 4, method_table = empty_table 16, method_count = 0\<rparr>"]
    by (auto simp: d opt_data_def)
qed

section \<open>The method table\<close>

lemma register_stores:
  assumes "ht_inv (method_table rep)" "ssn_rpc_register sc rep (Some n) (Some h) a w = (r, rep', w')"
  shows "ht_inv (method_table rep')"
    "r = 0 \<Longrightarrow> str_map (method_table rep') = (str_map (method_table rep))(n \<mapsto> Some \<lparr>method_name = take 63 n, me_handler = h, me_arg = a\<rparr>)"
    "r = 0 \<Longrightarrow> method_count rep' = Suc (method_count rep)" "r \<noteq> 0 \<Longrightarrow> r = -1 \<and> rep' = rep"
  using assms by (auto simp: ssn_rpc_register_def dest: str_tab.set_inv str_tab.set_law str_tab.set_fails
      split: prod.splits bool.splits)

lemma unregister_removes:
  assumes "ht_inv (method_table rep)" "str_map (method_table rep) n = Some (Some e)"
    "ssn_rpc_unregister rep (Some n) = (r, rep')"
  shows "ht_inv (method_table rep')" "r = 0" "str_map (method_table rep') = (str_map (method_table rep))(n := None)"
    "method_count rep' = method_count rep - 1"
proof -
  obtain ok t where rm: "ssn_hash_table_remove_str (method_table rep) n = (ok, t)" by (metis surj_pair)
  have "ssn_hash_table_get_str (method_table rep) n = Some e" using assms(1,2) by (simp add: str_tab.get_law)
  with assms(3) rm str_tab.remove_inv [OF assms(1) rm] str_tab.remove_law [OF assms(1) rm]
  show "ht_inv (method_table rep')" "r = 0" "str_map (method_table rep') = (str_map (method_table rep))(n := None)"
    "method_count rep' = method_count rep - 1"
    by (auto simp: ssn_rpc_unregister_def)
qed

text \<open>Registering a name again replaces the table's entry but counts it once more: after one
  unregistration nothing is registered under the name, a second one fails, and the counter stays
  one too high for ever.\<close>

lemma register_twice_drifts:
  assumes inv: "ht_inv (method_table rep)"
    and one: "ssn_rpc_register sc rep (Some n) (Some h) a w = (0, rep1, w1)"
    and two: "ssn_rpc_register sc rep1 (Some n) (Some h') a' w1 = (0, rep2, w2)"
    and out: "ssn_rpc_unregister rep2 (Some n) = (r, rep3)"
  shows "r = 0 \<and> fst (ssn_rpc_unregister rep3 (Some n)) = -1 \<and> method_count rep3 = Suc (method_count rep)"
proof -
  note r1 = register_stores [OF inv one]
  note r2 = register_stores [OF r1(1) two]
  note r3 = unregister_removes [OF r2(1) _ out]
  have "str_map (method_table rep2) n = Some (Some \<lparr>method_name = take 63 n, me_handler = h', me_arg = a'\<rparr>)"
    using r2(2) by simp
  note r3 = unregister_removes [OF r2(1) this out]
  have "ssn_hash_table_get_str (method_table rep3) n = None" using r3(1,3) by (simp add: str_tab.get_law)
  with r1(3) r2(3) r3 show ?thesis by (simp add: ssn_rpc_unregister_def)
qed

end
