(* ===== verification/Ssn_Pubsub.thy ===== *)
theory Ssn_Pubsub
  imports Ssn_Rpc
begin

text \<open>
  The publish-subscribe module \<^verbatim>\<open>protocol/pubsub/ssn_pubsub.c\<close> and the message module
  \<^verbatim>\<open>protocol/msg/ssn_msg.c\<close>. The subscriber's table of topics has string keys: its operations are
  used through the interface \<open>string_table\<close>. Message handlers are code of the application, given by
  an environment as in \<open>Ssn_Rpc\<close>; they act on any state \<open>'s\<close>.
\<close>

section \<open>Contexts\<close>

record ssn_pubsub_pub =
  pub_base :: ssn_protocol_ctx
  subscriber_table :: "nat ssn_hash_table"
  subscriber_count :: nat

record pubsub_sub_entry =
  topic :: bytes
  entry_subscribed :: bool

record ssn_pubsub_sub =
  sub_base :: ssn_protocol_ctx
  topic_table :: "pubsub_sub_entry ssn_hash_table"
  topic_count :: nat
  on_message :: "nat option"
  user_arg :: nat

definition ssn_pubsub_pub_create :: "syscalls \<Rightarrow> os \<Rightarrow> ssn_pubsub_pub option \<times> os" where
  "ssn_pubsub_pub_create sc w = (case os_calloc sc w of
       (False, w) \<Rightarrow> (None, w)
     | (True, w) \<Rightarrow> (case ssn_hash_table_create sc 16 w of
         None \<Rightarrow> (None, w)
       | Some (None, w) \<Rightarrow> (None, w)
       | Some (Some t, w) \<Rightarrow> (Some
           \<lparr>pub_base = \<lparr>ctx_type = SSN_PROTOCOL_PUBSUB, ctx_role = SSN_ROLE_PUB, ctx_transport = None, user_data = 0\<rparr>,
            subscriber_table = t, subscriber_count = 0\<rparr>, w)))"

definition ssn_pubsub_sub_create :: "syscalls \<Rightarrow> nat option \<Rightarrow> nat \<Rightarrow> os \<Rightarrow> ssn_pubsub_sub option \<times> os" where
  "ssn_pubsub_sub_create sc handler arg w = (case os_calloc sc w of
       (False, w) \<Rightarrow> (None, w)
     | (True, w) \<Rightarrow> (case ssn_hash_table_create sc 16 w of
         None \<Rightarrow> (None, w)
       | Some (None, w) \<Rightarrow> (None, w)
       | Some (Some t, w) \<Rightarrow> (Some
           \<lparr>sub_base = \<lparr>ctx_type = SSN_PROTOCOL_PUBSUB, ctx_role = SSN_ROLE_SUB, ctx_transport = None, user_data = 0\<rparr>,
            topic_table = t, topic_count = 0, on_message = handler, user_arg = arg\<rparr>, w)))"

definition ssn_pubsub_pub_bind :: "ssn_pubsub_pub option \<Rightarrow> ssn_transport option \<Rightarrow> int \<times> ssn_pubsub_pub option" where
  "ssn_pubsub_pub_bind ctx t = (case (ctx, t) of
       (Some c, Some _) \<Rightarrow> (0, Some (c\<lparr>pub_base := (pub_base c)\<lparr>ctx_transport := t\<rparr>\<rparr>))
     | _ \<Rightarrow> (-1, ctx))"

definition ssn_pubsub_sub_connect :: "ssn_pubsub_sub option \<Rightarrow> ssn_transport option \<Rightarrow> int \<times> ssn_pubsub_sub option" where
  "ssn_pubsub_sub_connect ctx t = (case (ctx, t) of
       (Some c, Some _) \<Rightarrow> (0, Some (c\<lparr>sub_base := (sub_base c)\<lparr>ctx_transport := t\<rparr>\<rparr>))
     | _ \<Rightarrow> (-1, ctx))"

definition ssn_pubsub_is_connected :: "ssn_protocol_ctx option \<Rightarrow> bool" where
  "ssn_pubsub_is_connected ctx = (case ctx of
       None \<Rightarrow> False
     | Some c \<Rightarrow> (case ctx_transport c of None \<Rightarrow> False | Some t \<Rightarrow> ssn_transport_is_connected (Some t)))"

section \<open>Subscriptions\<close>

definition set_sub_transport :: "ssn_transport \<Rightarrow> ssn_pubsub_sub \<Rightarrow> ssn_pubsub_sub" where
  "set_sub_transport t ctx = ctx\<lparr>sub_base := (sub_base ctx)\<lparr>ctx_transport := Some t\<rparr>\<rparr>"

definition ssn_pubsub_sub_subscribe ::
  "syscalls \<Rightarrow> ssn_pubsub_sub \<Rightarrow> bytes option \<Rightarrow> os \<Rightarrow> int \<times> ssn_pubsub_sub \<times> os" where
  "ssn_pubsub_sub_subscribe sc ctx name w = (case (name, ctx_transport (sub_base ctx)) of
       (Some n, Some t) \<Rightarrow> (case os_calloc sc w of
           (False, w) \<Rightarrow> (-1, ctx, w)
         | (True, w) \<Rightarrow>
             (case ssn_hash_table_set_str sc (topic_table ctx) n (Some \<lparr>topic = take 63 n, entry_subscribed = True\<rparr>) w of
                (False, tab, w) \<Rightarrow> (-1, ctx\<lparr>topic_table := tab\<rparr>, w)
              | (True, tab, w) \<Rightarrow>
                  let ctx = ctx\<lparr>topic_table := tab, topic_count := Suc (topic_count ctx)\<rparr> in
                  case send_new sc t SSN_MSG_TYPE_SUBSCRIBE 0 0 (Some (name_ref n)) None w of
                    (False, t, w) \<Rightarrow> (-1, (set_sub_transport t ctx)\<lparr>
                        topic_table := snd (ssn_hash_table_remove_str (topic_table ctx) n),
                        topic_count := topic_count ctx - 1\<rparr>, w)
                  | (True, t, w) \<Rightarrow> (0, set_sub_transport t ctx, w)))
     | _ \<Rightarrow> (-1, ctx, w))"

definition ssn_pubsub_sub_unsubscribe ::
  "syscalls \<Rightarrow> ssn_pubsub_sub \<Rightarrow> bytes option \<Rightarrow> os \<Rightarrow> int \<times> ssn_pubsub_sub \<times> os" where
  "ssn_pubsub_sub_unsubscribe sc ctx name w = (case name of
       None \<Rightarrow> (-1, ctx, w)
     | Some n \<Rightarrow> (case ssn_hash_table_get_str (topic_table ctx) n of
         None \<Rightarrow> (-1, ctx, w)
       | Some entry \<Rightarrow>
           let (ctx, w) = (case ctx_transport (sub_base ctx) of
                 None \<Rightarrow> (ctx, w)
               | Some t \<Rightarrow> (case send_new sc t SSN_MSG_TYPE_UNSUBSCRIBE 0 0 (Some (name_ref n)) None w of
                   (_, t, w) \<Rightarrow> (set_sub_transport t ctx, w)))
           in (0, ctx\<lparr>topic_table := snd (ssn_hash_table_remove_str (topic_table ctx) n),
                      topic_count := topic_count ctx - 1\<rparr>, w)))"

definition ssn_pubsub_pub_publish ::
  "syscalls \<Rightarrow> ssn_pubsub_pub \<Rightarrow> bytes option \<Rightarrow> bytes option \<Rightarrow> nat \<Rightarrow> os \<Rightarrow> int \<times> ssn_pubsub_pub \<times> os" where
  "ssn_pubsub_pub_publish sc ctx name data data_len w = (case (name, ctx_transport (pub_base ctx)) of
       (Some n, Some t) \<Rightarrow>
         (case send_new sc t SSN_MSG_TYPE_PUBLISH 0 0 (Some (name_ref n)) (Some (payload_ref data data_len)) w of
            (ok, t, w) \<Rightarrow> (if ok then 0 else -1, ctx\<lparr>pub_base := (pub_base ctx)\<lparr>ctx_transport := Some t\<rparr>\<rparr>, w))
     | _ \<Rightarrow> (-1, ctx, w))"

definition ssn_pubsub_handle_message ::
  "(nat \<Rightarrow> bytes option \<Rightarrow> bytes option \<Rightarrow> nat \<Rightarrow> nat \<Rightarrow> 's \<Rightarrow> 's) \<Rightarrow> ssn_pubsub_sub \<Rightarrow> bytes \<Rightarrow> 's \<Rightarrow> int \<times> 's" where
  "ssn_pubsub_handle_message env sub hdr st =
     (if hdr_msg_type (load_header hdr) \<noteq> SSN_MSG_TYPE_PUBLISH then (0, st)
      else case on_message sub of
        None \<Rightarrow> (0, st)
      | Some f \<Rightarrow>
          let u = packet_url hdr; d = packet_data hdr
          in (1, env f (url_ptr u) (data_ptr d) (data_length d) (user_arg sub) st))"

text \<open>\<^verbatim>\<open>ssn_pubsub_poll\<close> of a subscriber and of a publisher, which drops what it receives.\<close>

definition ssn_pubsub_poll_sub ::
  "syscalls \<Rightarrow> (nat \<Rightarrow> bytes option \<Rightarrow> bytes option \<Rightarrow> nat \<Rightarrow> nat \<Rightarrow> ssn_pubsub_sub \<times> os \<times> 'u \<Rightarrow> ssn_pubsub_sub \<times> os \<times> 'u) \<Rightarrow>
   int \<Rightarrow> ssn_pubsub_sub \<times> os \<times> 'u \<Rightarrow> int \<times> ssn_pubsub_sub \<times> os \<times> 'u" where
  "ssn_pubsub_poll_sub sc env timeout_ms st = (case st of (sub, w, u) \<Rightarrow>
     case ctx_transport (sub_base sub) of
       None \<Rightarrow> (-1, sub, w, u)
     | Some t \<Rightarrow> (case recv_packet sc t timeout_ms w of (r, t, w) \<Rightarrow>
         let sub = set_sub_transport t sub in
         case r of
           Inl n \<Rightarrow> (n, sub, w, u)
         | Inr hdr \<Rightarrow> (1, snd (ssn_pubsub_handle_message env sub hdr (sub, w, u)))))"

definition ssn_pubsub_poll_pub :: "syscalls \<Rightarrow> int \<Rightarrow> ssn_pubsub_pub \<times> os \<times> 'u \<Rightarrow> int \<times> ssn_pubsub_pub \<times> os \<times> 'u" where
  "ssn_pubsub_poll_pub sc timeout_ms st = (case st of (pub, w, u) \<Rightarrow>
     case ctx_transport (pub_base pub) of
       None \<Rightarrow> (-1, pub, w, u)
     | Some t \<Rightarrow> (case recv_packet sc t timeout_ms w of (r, t, w) \<Rightarrow>
         let pub = pub\<lparr>pub_base := (pub_base pub)\<lparr>ctx_transport := Some t\<rparr>\<rparr> in
         case r of Inl n \<Rightarrow> (n, pub, w, u) | Inr hdr \<Rightarrow> (1, pub, w, u)))"

section \<open>Messages\<close>

record ssn_msg_send_ctx =
  ms_base :: ssn_protocol_ctx
  ms_next_seqno :: u16

record ssn_msg_recv_ctx =
  mr_base :: ssn_protocol_ctx
  mr_on_message :: "nat option"
  mr_user_arg :: nat

definition ssn_msg_send_create :: "syscalls \<Rightarrow> os \<Rightarrow> ssn_msg_send_ctx option \<times> os" where
  "ssn_msg_send_create sc w = (case os_calloc sc w of
       (False, w) \<Rightarrow> (None, w)
     | (True, w) \<Rightarrow> (Some
         \<lparr>ms_base = \<lparr>ctx_type = SSN_PROTOCOL_MSG, ctx_role = SSN_ROLE_SEND, ctx_transport = None, user_data = 0\<rparr>,
          ms_next_seqno = 1\<rparr>, w))"

definition ssn_msg_recv_create :: "syscalls \<Rightarrow> nat option \<Rightarrow> nat \<Rightarrow> os \<Rightarrow> ssn_msg_recv_ctx option \<times> os" where
  "ssn_msg_recv_create sc handler arg w = (case os_calloc sc w of
       (False, w) \<Rightarrow> (None, w)
     | (True, w) \<Rightarrow> (Some
         \<lparr>mr_base = \<lparr>ctx_type = SSN_PROTOCOL_MSG, ctx_role = SSN_ROLE_RECV, ctx_transport = None, user_data = 0\<rparr>,
          mr_on_message = handler, mr_user_arg = arg\<rparr>, w))"

definition ssn_msg_recv_bind :: "ssn_msg_recv_ctx option \<Rightarrow> ssn_transport option \<Rightarrow> int \<times> ssn_msg_recv_ctx option" where
  "ssn_msg_recv_bind ctx t = (case (ctx, t) of
       (Some c, Some _) \<Rightarrow> (0, Some (c\<lparr>mr_base := (mr_base c)\<lparr>ctx_transport := t\<rparr>\<rparr>))
     | _ \<Rightarrow> (-1, ctx))"

definition ssn_msg_send_connect :: "ssn_msg_send_ctx option \<Rightarrow> ssn_transport option \<Rightarrow> int \<times> ssn_msg_send_ctx option" where
  "ssn_msg_send_connect ctx t = (case (ctx, t) of
       (Some c, Some _) \<Rightarrow> (0, Some (c\<lparr>ms_base := (ms_base c)\<lparr>ctx_transport := t\<rparr>\<rparr>))
     | _ \<Rightarrow> (-1, ctx))"

text \<open>The sequence number is used up even when the message is not sent.\<close>

definition ssn_msg_send :: "syscalls \<Rightarrow> ssn_msg_send_ctx \<Rightarrow> bytes option \<Rightarrow> nat \<Rightarrow> os \<Rightarrow> int \<times> ssn_msg_send_ctx \<times> os" where
  "ssn_msg_send sc ctx data data_len w = (case ctx_transport (ms_base ctx) of
       None \<Rightarrow> (-1, ctx, w)
     | Some t \<Rightarrow>
         (case send_new sc t SSN_MSG_TYPE_MESSAGE 0 (ms_next_seqno ctx) None (Some (payload_ref data data_len)) w of
            (ok, t, w) \<Rightarrow> (if ok then 0 else -1,
               ctx\<lparr>ms_next_seqno := ms_next_seqno ctx + 1, ms_base := (ms_base ctx)\<lparr>ctx_transport := Some t\<rparr>\<rparr>, w)))"

definition ssn_msg_handle_data ::
  "(nat \<Rightarrow> bytes option \<Rightarrow> nat \<Rightarrow> nat \<Rightarrow> 's \<Rightarrow> 's) \<Rightarrow> ssn_msg_recv_ctx \<Rightarrow> bytes \<Rightarrow> 's \<Rightarrow> int \<times> 's" where
  "ssn_msg_handle_data env recv hdr st =
     (if hdr_msg_type (load_header hdr) \<noteq> SSN_MSG_TYPE_MESSAGE then (0, st)
      else case mr_on_message recv of
        None \<Rightarrow> (0, st)
      | Some f \<Rightarrow> let d = packet_data hdr in (1, env f (data_ptr d) (data_length d) (mr_user_arg recv) st))"

definition ssn_msg_poll_recv ::
  "syscalls \<Rightarrow> (nat \<Rightarrow> bytes option \<Rightarrow> nat \<Rightarrow> nat \<Rightarrow> ssn_msg_recv_ctx \<times> os \<times> 'u \<Rightarrow> ssn_msg_recv_ctx \<times> os \<times> 'u) \<Rightarrow>
   int \<Rightarrow> ssn_msg_recv_ctx \<times> os \<times> 'u \<Rightarrow> int \<times> ssn_msg_recv_ctx \<times> os \<times> 'u" where
  "ssn_msg_poll_recv sc env timeout_ms st = (case st of (recv, w, u) \<Rightarrow>
     case ctx_transport (mr_base recv) of
       None \<Rightarrow> (-1, recv, w, u)
     | Some t \<Rightarrow> (case recv_packet sc t timeout_ms w of (r, t, w) \<Rightarrow>
         let recv = recv\<lparr>mr_base := (mr_base recv)\<lparr>ctx_transport := Some t\<rparr>\<rparr> in
         case r of
           Inl n \<Rightarrow> (n, recv, w, u)
         | Inr hdr \<Rightarrow> (1, snd (ssn_msg_handle_data env recv hdr (recv, w, u)))))"

definition ssn_msg_poll_send :: "syscalls \<Rightarrow> int \<Rightarrow> ssn_msg_send_ctx \<times> os \<times> 'u \<Rightarrow> int \<times> ssn_msg_send_ctx \<times> os \<times> 'u" where
  "ssn_msg_poll_send sc timeout_ms st = (case st of (send, w, u) \<Rightarrow>
     case ctx_transport (ms_base send) of
       None \<Rightarrow> (-1, send, w, u)
     | Some t \<Rightarrow> (case recv_packet sc t timeout_ms w of (r, t, w) \<Rightarrow>
         let send = send\<lparr>ms_base := (ms_base send)\<lparr>ctx_transport := Some t\<rparr>\<rparr> in
         case r of Inl n \<Rightarrow> (n, send, w, u) | Inr hdr \<Rightarrow> (1, send, w, u)))"

definition ssn_msg_is_connected :: "ssn_protocol_ctx option \<Rightarrow> bool" where
  "ssn_msg_is_connected ctx = (case ctx of
       None \<Rightarrow> False
     | Some c \<Rightarrow> (case ctx_transport c of None \<Rightarrow> False | Some t \<Rightarrow> ssn_transport_is_connected (Some t)))"

section \<open>Properties\<close>

lemma remove_str_law:
  "ht_inv t \<Longrightarrow> ht_inv (snd (ssn_hash_table_remove_str t k)) \<and>
   str_map (snd (ssn_hash_table_remove_str t k)) = (str_map t)(k := None)"
  by (metis prod.collapse str_tab.remove_inv str_tab.remove_law)

text \<open>C25. Subscribing keeps the topic table and the connection in step: on success the whole
  SUBSCRIBE frame has been written and the topic is in the table, counted once more; on failure the
  counter is as before and a topic that was not subscribed is not in the table either. Other topics
  are never affected.\<close>

theorem subscribe_all_or_nothing:
  assumes ok: "syscalls_ok sc" and inv: "ht_inv (topic_table ctx)" and t: "ctx_transport (sub_base ctx) = Some t"
    and s: "sendable (Some (name_ref n)) None"
    and sub: "ssn_pubsub_sub_subscribe sc ctx (Some n) w = (r, ctx', w')"
  shows "ht_inv (topic_table ctx') \<and>
    (\<forall>k. k \<noteq> n \<longrightarrow> str_map (topic_table ctx') k = str_map (topic_table ctx) k) \<and>
    (if r = 0
     then sent_on (tr_fd t) w' = sent_on (tr_fd t) w @ encode_frame (ssn_create_header SSN_MSG_TYPE_SUBSCRIBE 0 0) (Some (name_ref n)) None \<and>
       ssn_hash_table_get_str (topic_table ctx') n = Some \<lparr>topic = take 63 n, entry_subscribed = True\<rparr> \<and>
       topic_count ctx' = Suc (topic_count ctx)
     else r = -1 \<and> topic_count ctx' = topic_count ctx \<and>
       (str_map (topic_table ctx) n = None \<longrightarrow> str_map (topic_table ctx') n = None))"
proof -
  let ?e = "\<lparr>topic = take 63 n, entry_subscribed = True\<rparr>"
  obtain b w1 where a: "os_calloc sc w = (b, w1)" by fastforce
  obtain c tab w2 where h: "ssn_hash_table_set_str sc (topic_table ctx) n (Some ?e) w1 = (c, tab, w2)" by (metis prod_cases3)
  obtain d t' w3 where f: "send_new sc t SSN_MSG_TYPE_SUBSCRIBE 0 0 (Some (name_ref n)) None w2 = (d, t', w3)" by (metis prod_cases3)
  have "same_io w w2" using os_calloc_same_io [OF a] set_str_frame [OF h] by (rule same_io_trans)
  then have so: "sent_on (tr_fd t) w2 = sent_on (tr_fd t) w" by (simp add: same_io_def sent_on_def)
  have tab: "ht_inv tab" using str_tab.set_inv [OF inv h] .
  have law: "c \<Longrightarrow> str_map tab = (str_map (topic_table ctx))(n \<mapsto> Some ?e)" "\<not> c \<Longrightarrow> tab = topic_table ctx"
    using h inv by (auto dest: str_tab.set_law str_tab.set_fails)
  have "data_ok None" by (simp add: data_ok_def)
  from send_new_sends [OF ok s url_ok_name this f] so
  have sent: "d \<Longrightarrow> sent_on (tr_fd t) w3 = sent_on (tr_fd t) w @
      encode_frame (ssn_create_header SSN_MSG_TYPE_SUBSCRIBE 0 0) (Some (name_ref n)) None"
    by (auto simp: sent_prefix_def)
  show ?thesis
  proof (cases "b \<and> c \<and> d")
    case True
    with sub a h f t have "r = 0" "w' = w3" "topic_table ctx' = tab" "topic_count ctx' = Suc (topic_count ctx)"
      by (auto simp: ssn_pubsub_sub_subscribe_def Let_def set_sub_transport_def)
    with True tab law sent show ?thesis by (simp add: str_tab.get_law)
  next
    case False
    with sub a h f t law have "r = -1" "topic_count ctx' = topic_count ctx"
      "topic_table ctx' = (if b \<and> c then snd (ssn_hash_table_remove_str tab n) else topic_table ctx)"
      by (auto simp: ssn_pubsub_sub_subscribe_def Let_def set_sub_transport_def split: bool.splits)
    with inv law(1) remove_str_law [OF tab, of n] show ?thesis by auto
  qed
qed

definition example_sub :: ssn_pubsub_sub where
  "example_sub = \<lparr>sub_base = \<lparr>ctx_type = SSN_PROTOCOL_PUBSUB, ctx_role = SSN_ROLE_SUB, ctx_transport = Some example_tr, user_data = 0\<rparr>,
     topic_table = empty_table 16, topic_count = 0, on_message = Some 4, user_arg = 5\<rparr>"

theorem subscribe_all_or_nothing_witness:
  "\<exists>ctx' w'. ssn_pubsub_sub_subscribe sc_ideal example_sub (Some [47, 97]) os_init = (0, ctx', w') \<and>
     ssn_hash_table_get_str (topic_table ctx') [47, 97] = Some \<lparr>topic = [47, 97], entry_subscribed = True\<rparr> \<and> topic_count ctx' = 1"
proof -
  obtain r ctx' w' where sub: "ssn_pubsub_sub_subscribe sc_ideal example_sub (Some [47, 97]) os_init = (r, ctx', w')"
    by (metis prod_cases3)
  have "fst (ssn_pubsub_sub_subscribe sc_ideal example_sub (Some [47, 97]) os_init) = 0" by code_simp
  with sub have r: "r = 0" by simp
  have s: "sendable (Some (name_ref [47, 97])) None"
    by (simp add: sendable_def refs_rejected_def total_length_def frame_consts name_ref_def)
  have inv: "ht_inv (topic_table example_sub)" by (simp add: example_sub_def empty_table_inv)
  have t: "ctx_transport (sub_base example_sub) = Some example_tr" by (simp add: example_sub_def)
  from subscribe_all_or_nothing [OF sc_ideal_ok inv t s sub] r sub show ?thesis
    by (auto simp: example_sub_def)
qed

text \<open>C27. A published message and a point-to-point message reach the receiving module with their
  data: the frame that \<^verbatim>\<open>ssn_pubsub_pub_publish\<close> (\<^verbatim>\<open>ssn_msg_send\<close>) writes makes the subscriber
  (receiver) call its handler once with the topic at the start of the pointer it is given and with
  exactly the data that was published (sent), and makes the other module do nothing.\<close>

theorem messages_delivered:
  assumes n: "payload_ok data n" and name: "name \<noteq> []" "length name < 2 ^ 16"
    and s: "sendable (Some (name_ref name)) (Some (payload_ref data n))"
    and f: "on_message sub = Some f" "mr_on_message recv = Some g"
    and p: "p = encode_frame (ssn_create_header SSN_MSG_TYPE_PUBLISH 0 0) (Some (name_ref name)) (Some (payload_ref data n))"
    and q: "q = encode_frame (ssn_create_header SSN_MSG_TYPE_MESSAGE 0 seqno) None (Some (payload_ref data n))"
  shows "ssn_msg_handle_data env' recv p st = (0, st) \<and> ssn_pubsub_handle_message env sub q st = (0, st) \<and>
    (\<exists>u d. ssn_pubsub_handle_message env sub p st = (1, env f (Some u) d n (user_arg sub) st) \<and>
       take (length name) u = name \<and> data_bytes \<lparr>data_ptr = d, data_length = n\<rparr> = data_bytes (payload_ref data n)) \<and>
    (\<exists>d. ssn_msg_handle_data env' recv q st = (1, env' g d n (mr_user_arg recv) st) \<and>
       data_bytes \<lparr>data_ptr = d, data_length = n\<rparr> = data_bytes (payload_ref data n))"
proof -
  have len: "length (data_bytes (payload_ref data n)) = n"
    using data_ok_payload [OF n] n by (simp add: data_ok_def payload_ok_def)
  have s': "sendable None (Some (payload_ref data n))" "url_ok None"
    using s by (auto simp: sendable_def refs_rejected_def total_length_def url_ok_def split: option.splits)
  have pd: "data_length (packet_data x) = n \<and> data_bytes (packet_data x) = data_bytes (payload_ref data n)"
    if "x = p \<or> x = q" for x
    using that len packet_data_frame [OF s url_ok_name data_ok_payload [OF n] create_header_ok]
      packet_data_frame [OF s' data_ok_payload [OF n] create_header_ok]
    by (auto simp: p q opt_data_def)
  then have bytes: "data_bytes \<lparr>data_ptr = data_ptr (packet_data x), data_length = n\<rparr> = data_bytes (payload_ref data n)"
    if "x = p \<or> x = q" for x
    using that by (cases "packet_data x") (metis ssn_data_ref.simps(1,2))
  let ?h = "ssn_create_header SSN_MSG_TYPE_PUBLISH 0 0"
  from get_url_encode_frame [OF s url_ok_name create_header_ok, of SSN_MSG_TYPE_PUBLISH 0 0 "[]"] name
  obtain u where "ssn_get_url p = Some u" "url_bytes u = name" "url_len u = length name" by (auto simp: p)
  then obtain v where v: "url_ptr (packet_url p) = Some v" "take (length name) v = name"
    using name(1) by (auto simp: packet_url_def url_bytes_def split: option.splits)
  show ?thesis
    using f v pd bytes
    by (auto simp: p q ssn_msg_handle_data_def ssn_pubsub_handle_message_def msg_types Let_def)
qed

theorem messages_delivered_witness:
  "\<exists>u d. ssn_pubsub_handle_message (\<lambda>f u d n a st. st @ [(f, u, n, a)]) example_sub
      (encode_frame (ssn_create_header SSN_MSG_TYPE_PUBLISH 0 0) (Some (name_ref [47, 97])) (Some (payload_ref (Some [1, 2, 3]) 3))) [] =
      (1, [(4, Some u, 3, 5)]) \<and> take 2 u = [47, 97]"
proof -
  have p: "payload_ok (Some [1, 2, 3]) 3" by (simp add: payload_ok_def)
  have s: "sendable (Some (name_ref [47, 97])) (Some (payload_ref (Some [1, 2, 3]) 3))"
    by (rule payload_sendable) (simp_all add: p frame_consts)
  let ?r = "\<lparr>mr_base = sub_base example_sub, mr_on_message = Some 8, mr_user_arg = 9\<rparr>"
  have f: "on_message example_sub = Some 4" "mr_on_message ?r = Some 8" by (simp_all add: example_sub_def)
  have name: "[47, 97 :: byte] \<noteq> []" "length [47, 97 :: byte] < 2 ^ 16" by simp_all
  have a: "user_arg example_sub = 5" by (simp add: example_sub_def)
  from messages_delivered [OF p name s f refl refl, where env = "\<lambda>f u d n a st. st @ [(f, u, n, a)]" and st = "[]"
      and env' = "\<lambda>g d n a st. st" and seqno = 1]
  show ?thesis unfolding a by (auto simp: numeral_2_eq_2)
qed

end
