(* ===== verification/Ssn_Protocol.thy ===== *)
theory Ssn_Protocol
  imports Ssn_Pubsub
begin

text \<open>
  The generic layer of \<^verbatim>\<open>protocol/ssn_protocol.c\<close>: creation of a context by role, dispatch of
  \<^verbatim>\<open>poll\<close> by type and the deprecated loop \<^verbatim>\<open>ssn_protocol_run\<close>. A context pointer is one of the six
  structures that start with the base context. Destruction only frees memory.

  The locale \<open>frame_consumer\<close> is the contract of the handle functions: a module reacts to one
  message type and leaves every other packet alone. The four modules interpret it.
\<close>

datatype protocol_instance =
    Ctx_req ssn_rpc_req | Ctx_rep ssn_rpc_rep | Ctx_send ssn_msg_send_ctx | Ctx_recv ssn_msg_recv_ctx
  | Ctx_pub ssn_pubsub_pub | Ctx_sub ssn_pubsub_sub

fun instance_base :: "protocol_instance \<Rightarrow> ssn_protocol_ctx" where
  "instance_base (Ctx_req c) = req_base c"
| "instance_base (Ctx_rep c) = rep_base c"
| "instance_base (Ctx_send c) = ms_base c"
| "instance_base (Ctx_recv c) = mr_base c"
| "instance_base (Ctx_pub c) = pub_base c"
| "instance_base (Ctx_sub c) = sub_base c"

fun ssn_protocol_create ::
  "syscalls \<Rightarrow> ssn_role \<Rightarrow> nat option \<Rightarrow> nat \<Rightarrow> os \<Rightarrow> protocol_instance option \<times> os" where
  "ssn_protocol_create sc SSN_ROLE_REQ callback arg w = apfst (map_option Ctx_req) (ssn_rpc_req_create sc callback arg w)"
| "ssn_protocol_create sc SSN_ROLE_REP callback arg w = apfst (map_option Ctx_rep) (ssn_rpc_rep_create sc callback arg w)"
| "ssn_protocol_create sc SSN_ROLE_SEND callback arg w = apfst (map_option Ctx_send) (ssn_msg_send_create sc w)"
| "ssn_protocol_create sc SSN_ROLE_RECV callback arg w = apfst (map_option Ctx_recv) (ssn_msg_recv_create sc callback arg w)"
| "ssn_protocol_create sc SSN_ROLE_PUB callback arg w = apfst (map_option Ctx_pub) (ssn_pubsub_pub_create sc w)"
| "ssn_protocol_create sc SSN_ROLE_SUB callback arg w = apfst (map_option Ctx_sub) (ssn_pubsub_sub_create sc callback arg w)"

text \<open>The handlers of an application, one environment per kind of context.\<close>

record 'u protocol_env =
  env_reply :: "'u reply_env"
  env_request :: "nat \<Rightarrow> u16 \<Rightarrow> bytes option \<Rightarrow> bytes option \<Rightarrow> nat \<Rightarrow> nat \<Rightarrow> ssn_rpc_rep \<times> os \<times> 'u \<Rightarrow> ssn_rpc_rep \<times> os \<times> 'u"
  env_topic :: "nat \<Rightarrow> bytes option \<Rightarrow> bytes option \<Rightarrow> nat \<Rightarrow> nat \<Rightarrow> ssn_pubsub_sub \<times> os \<times> 'u \<Rightarrow> ssn_pubsub_sub \<times> os \<times> 'u"
  env_data :: "nat \<Rightarrow> bytes option \<Rightarrow> nat \<Rightarrow> nat \<Rightarrow> ssn_msg_recv_ctx \<times> os \<times> 'u \<Rightarrow> ssn_msg_recv_ctx \<times> os \<times> 'u"

fun ssn_protocol_poll ::
  "syscalls \<Rightarrow> 'u protocol_env \<Rightarrow> int \<Rightarrow> protocol_instance \<times> os \<times> 'u \<Rightarrow> int \<times> protocol_instance \<times> os \<times> 'u" where
  "ssn_protocol_poll sc env ms (Ctx_req c, w, u) =
     (case ssn_rpc_poll_req sc (env_reply env) ms \<lparr>st_req = c, st_os = w, st_user = u\<rparr> of
        (r, st) \<Rightarrow> (r, Ctx_req (st_req st), st_os st, st_user st))"
| "ssn_protocol_poll sc env ms (Ctx_rep c, w, u) = apsnd (apfst Ctx_rep) (ssn_rpc_poll_rep sc (env_request env) ms (c, w, u))"
| "ssn_protocol_poll sc env ms (Ctx_send c, w, u) = apsnd (apfst Ctx_send) (ssn_msg_poll_send sc ms (c, w, u))"
| "ssn_protocol_poll sc env ms (Ctx_recv c, w, u) = apsnd (apfst Ctx_recv) (ssn_msg_poll_recv sc (env_data env) ms (c, w, u))"
| "ssn_protocol_poll sc env ms (Ctx_pub c, w, u) = apsnd (apfst Ctx_pub) (ssn_pubsub_poll_pub sc ms (c, w, u))"
| "ssn_protocol_poll sc env ms (Ctx_sub c, w, u) = apsnd (apfst Ctx_sub) (ssn_pubsub_poll_sub sc (env_topic env) ms (c, w, u))"

text \<open>The loop runs as long as the transport is connected: it may not end.\<close>

partial_function (option) protocol_loop ::
  "syscalls \<Rightarrow> 'u protocol_env \<Rightarrow> protocol_instance \<times> os \<times> 'u \<Rightarrow> (protocol_instance \<times> os \<times> 'u) option" where
  "protocol_loop sc env st =
     (if ssn_protocol_is_connected (Some (instance_base (fst st))) then
        (case ssn_protocol_poll sc env 100 st of (ret, c, w, u) \<Rightarrow>
           if ret < 0 \<and> os_errno w \<noteq> EAGAIN then Some (c, w, u) else protocol_loop sc env (c, w, u))
      else Some st)"

declare protocol_loop.simps [code]

definition ssn_protocol_run ::
  "syscalls \<Rightarrow> 'u protocol_env \<Rightarrow> protocol_instance \<times> os \<times> 'u \<Rightarrow> (protocol_instance \<times> os \<times> 'u) option" where
  "ssn_protocol_run sc env st =
     (if ctx_transport (instance_base (fst st)) = None then Some st else protocol_loop sc env st)"

section \<open>Roles\<close>

fun role_type :: "ssn_role \<Rightarrow> ssn_protocol_type" where
  "role_type SSN_ROLE_REQ = SSN_PROTOCOL_RPC"
| "role_type SSN_ROLE_REP = SSN_PROTOCOL_RPC"
| "role_type SSN_ROLE_SEND = SSN_PROTOCOL_MSG"
| "role_type SSN_ROLE_RECV = SSN_PROTOCOL_MSG"
| "role_type SSN_ROLE_PUB = SSN_PROTOCOL_PUBSUB"
| "role_type SSN_ROLE_SUB = SSN_PROTOCOL_PUBSUB"

lemmas create_defs = ssn_rpc_req_create_def ssn_rpc_rep_create_def ssn_msg_send_create_def
  ssn_msg_recv_create_def ssn_pubsub_pub_create_def ssn_pubsub_sub_create_def

lemma protocol_create_base:
  "ssn_protocol_create sc role callback arg w = (Some c, w') \<Longrightarrow>
   ctx_role (instance_base c) = role \<and> ctx_type (instance_base c) = role_type role \<and> ctx_transport (instance_base c) = None"
  by (cases role) (auto simp: create_defs split: prod.splits bool.splits option.splits)

section \<open>Consumers of packets\<close>

locale frame_consumer =
  fixes handle :: "bytes \<Rightarrow> 's \<Rightarrow> int \<times> 's" and ty :: byte
  assumes other_types: "hdr_msg_type (load_header p) \<noteq> ty \<Longrightarrow> handle p st = (0, st)"
begin

lemma consumes: "handle p st \<noteq> (0, st) \<Longrightarrow> hdr_msg_type (load_header p) = ty"
  using other_types by blast

end

interpretation reply: frame_consumer "ssn_rpc_handle_reply env" SSN_MSG_TYPE_RPC_REQUEST for env
  by unfold_locales (simp add: ssn_rpc_handle_reply_def)

interpretation request: frame_consumer "ssn_rpc_handle_request env rep" SSN_MSG_TYPE_RPC_REQUEST for env rep
  by unfold_locales (simp add: ssn_rpc_handle_request_def)

interpretation message: frame_consumer "ssn_pubsub_handle_message env sub" SSN_MSG_TYPE_PUBLISH for env sub
  by unfold_locales (simp add: ssn_pubsub_handle_message_def)

interpretation data: frame_consumer "ssn_msg_handle_data env recv" SSN_MSG_TYPE_MESSAGE for env recv
  by unfold_locales (simp add: ssn_msg_handle_data_def)

section \<open>Properties\<close>



end
