(* ===== verification/Ssn_Server_State.thy ===== *)
theory Ssn_Server_State
  imports Ssn_Stream Ssn_Protocol
begin

text \<open>
  The data of \<^verbatim>\<open>ssn_server.c\<close>, its table of clients and its table of commands.

  The lists of \<^verbatim>\<open>ssn_list.h\<close> are HOL lists from the head. A client is known by its id; the list of
  handshake timers \<^verbatim>\<open>hst_h\<close> is the list of the ids of the clients that own them. A command node has
  an address, so that the tail pointer \<^verbatim>\<open>prefix_t\<close> can be compared with the last node of the list
  \<^verbatim>\<open>prefix_h\<close>; once a pointer to a freed node has been written through, the field \<open>corrupt\<close> is set
  and nothing is claimed of the state any more.

  A client's transport is set before the client enters the table and is never \<^verbatim>\<open>NULL\<close> there. The
  bytes of a URL stand for the pointer and the length. An \<^verbatim>\<open>int\<close> is a HOL integer reduced to 32
  bits where the code converts to it. Locks are taken around each step and have no other effect in
  a sequential run.
\<close>

section \<open>Data\<close>

definition IPC_CLI_HASH_SIZE :: nat where "IPC_CLI_HASH_SIZE = 64"
definition IPC_CMD_HASH_SIZE :: nat where "IPC_CMD_HASH_SIZE = 32"
definition SSN_SERVER_DEFAULT_MAX_CONNECTIONS :: u32 where "SSN_SERVER_DEFAULT_MAX_CONNECTIONS = 1020"
definition SSN_TIMER_PERIOD :: int where "SSN_TIMER_PERIOD = 50"

definition c_int :: "int \<Rightarrow> int" where
  "c_int x = sint (word_of_int x :: 32 word)"

record server_cli =
  active :: bool
  onconn :: bool
  subscribed :: "bytes list"
  hst_alive :: int
  hst_linked :: bool
  cli_recv :: ssn_stream_ctx
  cli_transport :: ssn_transport
  cli_id :: u32

record server_cmd =
  cmd_addr :: nat
  onrpc :: nat
  cmd_arg :: nat
  cmd_url :: bytes

record ssn_server =
  valid :: bool
  ref_count :: int
  ifname :: string
  srv_name :: string
  ncid :: u32
  listed :: bool
  hst_h :: "u32 list"
  clis :: "server_cli list list"
  cmds :: "server_cmd list list"
  def_cmd :: "server_cmd option"
  prefix_h :: "server_cmd list"
  prefix_t :: "nat option"
  next_addr :: nat
  corrupt :: bool
  onmsg :: "nat option"
  msg_arg :: nat
  oncli :: "nat option"
  carg :: nat
  sv_send_timeout :: int
  handshake_timeout :: int
  keepalive_timeout :: int
  max_connections :: u32
  sv_transport :: "ssn_transport option"
  evt_fd :: int
  evt_count :: nat
  sendbuf :: bytes
  rpc_rep :: "ssn_rpc_rep option"
  pubsub_pub :: "ssn_pubsub_pub option"
  msg_recv :: "ssn_msg_recv_ctx option"
  freed :: bool

text \<open>What the functions work on: the server, the operating system, the transport factory and the
  state of the application, which the application's handlers may change.\<close>

record 'u world =
  srv :: ssn_server
  wos :: os
  fac :: transport_factory
  usr :: 'u

section \<open>Clients\<close>

definition cli_hash :: "u32 \<Rightarrow> nat" where
  "cli_hash i = unat (i AND 63)"

definition ssn_server_cli_find :: "ssn_server \<Rightarrow> u32 \<Rightarrow> server_cli option" where
  "ssn_server_cli_find s i = List.find (\<lambda>c. cli_id c = i) (clis s ! cli_hash i)"

text \<open>All clients in the order the loops visit them.\<close>

definition all_clis :: "ssn_server \<Rightarrow> server_cli list" where
  "all_clis s = concat (clis s)"

text \<open>A change to one client.\<close>

definition update_cli :: "u32 \<Rightarrow> (server_cli \<Rightarrow> server_cli) \<Rightarrow> ssn_server \<Rightarrow> ssn_server" where
  "update_cli i f s = s\<lparr>clis := (clis s)[cli_hash i := map (\<lambda>c. if cli_id c = i then f c else c) (clis s ! cli_hash i)]\<rparr>"

text \<open>The search for a free id ends unless every 32-bit number is in use.\<close>

partial_function (option) ssn_server_cli_newid :: "ssn_server \<Rightarrow> (u32 \<times> ssn_server) option" where
  "ssn_server_cli_newid s =
     (let i = ncid s; s = s\<lparr>ncid := i + 1\<rparr> in
      if ssn_server_cli_find s i = None then Some (i, s) else ssn_server_cli_newid s)"

declare ssn_server_cli_newid.simps [code]

definition ssn_server_cli_init :: "server_cli \<Rightarrow> ssn_server \<Rightarrow> ssn_server option" where
  "ssn_server_cli_init cli s = (case ssn_server_cli_newid s of
       None \<Rightarrow> None
     | Some (i, s) \<Rightarrow>
         let cli = cli\<lparr>cli_id := i, hst_alive := handshake_timeout s, hst_linked := True\<rparr> in
         Some (s\<lparr>clis := (clis s)[cli_hash i := cli # clis s ! cli_hash i], hst_h := i # hst_h s\<rparr>))"

definition ssn_server_cli_destroy :: "u32 \<Rightarrow> ssn_server \<times> os \<Rightarrow> ssn_server \<times> os" where
  "ssn_server_cli_destroy i sw = (case sw of (s, w) \<Rightarrow>
     case ssn_server_cli_find s i of
       None \<Rightarrow> (s, w)
     | Some cli \<Rightarrow>
         (s\<lparr>clis := (clis s)[cli_hash i := filter (\<lambda>c. cli_id c \<noteq> i) (clis s ! cli_hash i)],
            hst_h := (if hst_linked cli then remove1 i (hst_h s) else hst_h s)\<rparr>,
          ssn_transport_destroy (cli_transport cli) w))"

section \<open>Matching a published URL\<close>

definition sub_matches :: "bytes \<Rightarrow> bytes \<Rightarrow> bool" where
  "sub_matches sub url =
     (if length sub = 1 then True
      else if length sub = length url \<and> sub = url then True
      else if sub ! (length sub - 1) = 47 then
        let path_len = length sub - 1 in
        length url \<ge> path_len \<and> take path_len url = take path_len sub \<and>
        (length url = path_len \<or> url ! path_len = 47)
      else False)"

definition ssn_server_cli_sub_match :: "server_cli \<Rightarrow> bytes \<Rightarrow> bool" where
  "ssn_server_cli_sub_match cli url = list_ex (\<lambda>sub. sub_matches sub url) (subscribed cli)"

section \<open>Commands\<close>

text \<open>The hash adds every second byte of the URL, as signed characters.\<close>

fun every_other :: "bytes \<Rightarrow> bytes" where
  "every_other [] = []"
| "every_other [x] = [x]"
| "every_other (x # _ # xs) = x # every_other xs"

definition ssn_server_url_hash :: "bytes \<Rightarrow> nat" where
  "ssn_server_url_hash url = nat (sum_list (map sint (every_other url)) AND 31)"

definition ssn_server_cmd_match :: "ssn_server \<Rightarrow> bytes \<Rightarrow> server_cmd option" where
  "ssn_server_cmd_match s url =
     (case List.find (\<lambda>c. length (cmd_url c) = length url \<and> cmd_url c = url) (cmds s ! ssn_server_url_hash url) of
        Some c \<Rightarrow> Some c
      | None \<Rightarrow>
          (case List.find (\<lambda>c. length (cmd_url c) \<le> length url \<and> cmd_url c = take (length (cmd_url c)) url \<and>
               (length (cmd_url c) = length url \<or> url ! length (cmd_url c) = 47)) (prefix_h s) of
             Some c \<Rightarrow> Some c
           | None \<Rightarrow> def_cmd s))"

text \<open>The test that every function with a URL argument makes.\<close>

definition good_url :: "ssn_url_ref option \<Rightarrow> bool" where
  "good_url url = (case url of None \<Rightarrow> False
     | Some u \<Rightarrow> url_ptr u \<noteq> None \<and> url_len u \<noteq> 0 \<and> url_bytes u \<noteq> [] \<and> hd (url_bytes u) = 47)"

text \<open>A URL of length 1 names the default command, one that ends in \<^verbatim>\<open>/\<close> a prefix, which is stored
  without that character.\<close>

definition is_default :: "bytes \<Rightarrow> bool" where
  "is_default url \<longleftrightarrow> length url = 1"

definition is_prefix :: "bytes \<Rightarrow> bool" where
  "is_prefix url \<longleftrightarrow> \<not> is_default url \<and> url ! (length url - 1) = 47"

definition method_path :: "bytes \<Rightarrow> bytes" where
  "method_path url = (if is_prefix url then take (length url - 1) url else url)"

text \<open>\<^verbatim>\<open>INSERT_TO_FIFO(cmd, prefix_h, prefix_t)\<close>. The macro writes \<^verbatim>\<open>prefix_t->next\<close>: the node it
  points to must be the last one of the list.\<close>

definition prefix_tail_ok :: "ssn_server \<Rightarrow> bool" where
  "prefix_tail_ok s \<longleftrightarrow> prefix_t s = (if prefix_h s = [] then None else Some (cmd_addr (last (prefix_h s))))"

definition insert_prefix :: "server_cmd \<Rightarrow> ssn_server \<Rightarrow> ssn_server" where
  "insert_prefix cmd s =
     (if prefix_tail_ok s then s\<lparr>prefix_h := prefix_h s @ [cmd], prefix_t := Some (cmd_addr cmd)\<rparr>
      else s\<lparr>corrupt := True\<rparr>)"

definition ssn_server_add_method ::
  "syscalls \<Rightarrow> ssn_url_ref option \<Rightarrow> nat option \<Rightarrow> nat \<Rightarrow> 'u world \<Rightarrow> bool \<times> 'u world" where
  "ssn_server_add_method sc url callback arg x =
     (if \<not> valid (srv x) then (False, x)
      else if \<not> good_url url \<or> callback = None then (False, x)
      else case os_calloc sc (wos x) of
        (False, w) \<Rightarrow> (False, x\<lparr>wos := w\<rparr>)
      | (True, w) \<Rightarrow>
          let u = url_bytes (the url); s = srv x;
              cmd = \<lparr>cmd_addr = next_addr s, onrpc = the callback, cmd_arg = arg, cmd_url = method_path u\<rparr>;
              s = s\<lparr>next_addr := next_addr s + 1\<rparr>;
              s = (if is_default u then s\<lparr>def_cmd := Some cmd\<rparr>
                   else if is_prefix u then insert_prefix cmd s
                   else let h = ssn_server_url_hash u in s\<lparr>cmds := (cmds s)[h := cmd # cmds s ! h]\<rparr>)
          in (True, x\<lparr>srv := s, wos := w\<rparr>))"

text \<open>Removal takes the first command with the path out of its list; \<^verbatim>\<open>DELETE_FROM_LIST\<close> does not
  know of \<^verbatim>\<open>prefix_t\<close>.\<close>

fun remove_cmd :: "bytes \<Rightarrow> server_cmd list \<Rightarrow> server_cmd list" where
  "remove_cmd path [] = []"
| "remove_cmd path (c # cs) = (if cmd_url c = path then cs else c # remove_cmd path cs)"

definition ssn_server_remove_method :: "ssn_url_ref option \<Rightarrow> 'u world \<Rightarrow> 'u world" where
  "ssn_server_remove_method url x =
     (if \<not> valid (srv x) \<or> \<not> good_url url then x
      else
        let u = url_bytes (the url); s = srv x in
        x\<lparr>srv := (if is_default u then s\<lparr>def_cmd := None\<rparr>
                  else if is_prefix u then s\<lparr>prefix_h := remove_cmd (method_path u) (prefix_h s)\<rparr>
                  else let h = ssn_server_url_hash u in s\<lparr>cmds := (cmds s)[h := remove_cmd u (cmds s ! h)]\<rparr>)\<rparr>)"

end
