(* ===== verification/Ssn_Server.thy ===== *)
theory Ssn_Server
  imports Ssn_Server_State
begin

text \<open>
  The operations of \<^verbatim>\<open>ssn_server.c\<close>: life cycle, sending, the handlers of the packet types, the
  event loop and the timer thread's pass.

  A handler of the application (RPC, message or connection handler) is a number; the record
  \<open>server_env\<close> says what it does to the world. Handlers may call the functions of this theory; they
  must not poll the server again, as the code keeps a pointer to the client meanwhile.
\<close>

record 'u server_env =
  rpc_fn :: "nat \<Rightarrow> u32 \<Rightarrow> bytes \<Rightarrow> nat \<Rightarrow> 'u world \<Rightarrow> 'u world"
  msg_fn :: "nat \<Rightarrow> u32 \<Rightarrow> ssn_url_ref \<Rightarrow> ssn_data_ref \<Rightarrow> nat \<Rightarrow> 'u world \<Rightarrow> 'u world"
  cli_fn :: "nat \<Rightarrow> u32 \<Rightarrow> bool \<Rightarrow> nat \<Rightarrow> 'u world \<Rightarrow> 'u world"

section \<open>Life cycle\<close>

record server_options =
  send_timeout_opt :: u64
  conn_timeout_opt :: u64
  idle_timeout_opt :: u64
  ifname_opt :: string
  max_connections_opt :: u32

definition empty_server :: ssn_server where
  "empty_server = \<lparr>valid = False, ref_count = 0, ifname = [], srv_name = [], ncid = 0, listed = False, hst_h = [],
     clis = replicate IPC_CLI_HASH_SIZE [], cmds = replicate IPC_CMD_HASH_SIZE [], def_cmd = None, prefix_h = [],
     prefix_t = None, next_addr = 0, corrupt = False, onmsg = None, msg_arg = 0, oncli = None, carg = 0,
     sv_send_timeout = 0, handshake_timeout = 0, keepalive_timeout = 0, max_connections = 0, sv_transport = None,
     evt_fd = -1, evt_count = 0, sendbuf = [], rpc_rep = None, pubsub_pub = None, msg_recv = None, freed = False\<rparr>"

definition apply_options :: "server_options option \<Rightarrow> ssn_server \<Rightarrow> ssn_server" where
  "apply_options opts s = (case opts of
       Some opt \<Rightarrow> s\<lparr>
         sv_send_timeout := c_int (uint (send_timeout_opt opt)),
         handshake_timeout := (if conn_timeout_opt opt > 0 then c_int (uint (conn_timeout_opt opt)) else 5000),
         keepalive_timeout := c_int (uint (idle_timeout_opt opt)),
         max_connections := (if max_connections_opt opt > 0 then max_connections_opt opt else SSN_SERVER_DEFAULT_MAX_CONNECTIONS),
         ifname := (if ifname_opt opt \<noteq> [] then take 15 (ifname_opt opt) else ifname s)\<rparr>
     | None \<Rightarrow> s\<lparr>sv_send_timeout := 100, handshake_timeout := 5000, keepalive_timeout := 10,
         max_connections := SSN_SERVER_DEFAULT_MAX_CONNECTIONS\<rparr>)"

text \<open>\<^verbatim>\<open>ipc_event_pair_create\<close>: an allocation and a new descriptor.\<close>

definition ipc_event_pair_create :: "syscalls \<Rightarrow> os \<Rightarrow> int option \<times> os" where
  "ipc_event_pair_create sc w = (case os_calloc sc w of
       (False, w) \<Rightarrow> (None, w)
     | (True, w) \<Rightarrow> (case os_socket sc w of (fd, w) \<Rightarrow> if fd < 0 then (None, w) else (Some fd, w)))"

definition ipc_event_pair_destroy :: "int \<Rightarrow> os \<Rightarrow> os" where
  "ipc_event_pair_destroy fd w = (if fd \<ge> 0 then os_close fd w else w)"

text \<open>The allocations in the order of the code: server, mutex, event pair, send buffer, the three
  protocol contexts. On an error after the event pair its descriptor is closed.\<close>

definition ssn_server_create_with_options ::
  "syscalls \<Rightarrow> string option \<Rightarrow> server_options option \<Rightarrow> os \<Rightarrow> ssn_server option \<times> os" where
  "ssn_server_create_with_options sc name opts w = (if name = None then (None, w) else case os_calloc sc w of
       (False, w) \<Rightarrow> (None, w)
     | (True, w) \<Rightarrow> (case os_calloc sc w of
         (False, w) \<Rightarrow> (None, w)
       | (True, w) \<Rightarrow> (case ipc_event_pair_create sc w of
           (None, w) \<Rightarrow> (None, w)
         | (Some fd, w) \<Rightarrow> (case os_calloc sc w of
             (False, w) \<Rightarrow> (None, ipc_event_pair_destroy fd w)
           | (True, w) \<Rightarrow> (case ssn_rpc_rep_create sc None 0 w of
               (None, w) \<Rightarrow> (None, ipc_event_pair_destroy fd w)
             | (Some rep, w) \<Rightarrow> (case ssn_pubsub_pub_create sc w of
                 (None, w) \<Rightarrow> (None, ipc_event_pair_destroy fd w)
               | (Some pub, w) \<Rightarrow> (case ssn_msg_recv_create sc None 0 w of
                   (None, w) \<Rightarrow> (None, ipc_event_pair_destroy fd w)
                 | (Some rcv, w) \<Rightarrow>
                     (Some ((apply_options opts empty_server)\<lparr>evt_fd := fd, srv_name := take 63 (the name),
                        rpc_rep := Some rep, pubsub_pub := Some pub, msg_recv := Some rcv,
                        valid := True, ref_count := 1, listed := True\<rparr>), w))))))))"

definition ssn_server_create :: "syscalls \<Rightarrow> string option \<Rightarrow> os \<Rightarrow> ssn_server option \<times> os" where
  "ssn_server_create sc name w = ssn_server_create_with_options sc name None w"

definition server_config :: "ssn_transport_type \<Rightarrow> ssn_server \<Rightarrow> ssn_transport_config" where
  "server_config ty s = \<lparr>cfg_type = ty, cfg_non_blocking = True, send_timeout_ms = sv_send_timeout s,
     recv_timeout_ms = 1000, connect_timeout_ms = handshake_timeout s, enable_keepalive = True,
     keepalive_idle_sec = keepalive_timeout s, keepalive_interval_sec = 10, keepalive_count = 3, enable_nagle = False,
     send_buffer_size = int SSN_MAX_PACKET_SIZE, recv_buffer_size = int SSN_MAX_PACKET_SIZE, reuse_address = True\<rparr>"

text \<open>A stale socket file at \<^verbatim>\<open>srv_name\<close> (as it was given, with its scheme) is removed first.\<close>

definition remove_stale :: "syscalls \<Rightarrow> ssn_transport_type \<Rightarrow> string \<Rightarrow> os \<Rightarrow> bool \<times> os" where
  "remove_stale sc ty path w =
     (if ty = SSN_TRANSPORT_UNIX then
        (case os_stat sc path w of (k, w) \<Rightarrow>
           (case k of
              Socket_file \<Rightarrow> (True, os_unlink path w)
            | Other_file \<Rightarrow> (False, w)
            | _ \<Rightarrow> (os_errno w = ENOENT, w)))
      else (True, w))"

definition bind_protocols :: "ssn_server \<Rightarrow> ssn_server" where
  "bind_protocols s = s\<lparr>
     rpc_rep := map_option (\<lambda>r. r\<lparr>rep_base := (rep_base r)\<lparr>ctx_transport := sv_transport s\<rparr>\<rparr>) (rpc_rep s),
     pubsub_pub := snd (ssn_pubsub_pub_bind (pubsub_pub s) (sv_transport s)),
     msg_recv := snd (ssn_msg_recv_bind (msg_recv s) (sv_transport s))\<rparr>"

definition server_address_str :: "string \<Rightarrow> string" where
  "server_address_str name =
     take 255 (if strstr name ''://'' = None then ''unix://'' @ name else name)"

definition ssn_server_start :: "syscalls \<Rightarrow> resolver \<Rightarrow> bytes option \<Rightarrow> 'u world \<Rightarrow> bool \<times> 'u world" where
  "ssn_server_start sc res junk x =
     (if \<not> valid (srv x) then (False, x)
      else case ssn_address_parse res (server_address_str (srv_name (srv x))) of
        None \<Rightarrow> (False, x)
      | Some a \<Rightarrow> (case remove_stale sc (addr_type a) (srv_name (srv x)) (wos x) of
          (False, w) \<Rightarrow> (False, x\<lparr>wos := w\<rparr>)
        | (True, w) \<Rightarrow>
            (case ssn_transport_create sc junk (addr_type a) (Some (server_config (addr_type a) (srv x))) (fac x) w of
               (None, g, w) \<Rightarrow> (False, x\<lparr>srv := (srv x)\<lparr>sv_transport := None\<rparr>, fac := g, wos := w\<rparr>)
             | (Some t, g, w) \<Rightarrow> (case ssn_transport_listen sc (ssn_transport_bind t a) w of
                 (False, t, w) \<Rightarrow> (False, x\<lparr>srv := (srv x)\<lparr>sv_transport := None\<rparr>, fac := g, wos := ssn_transport_destroy t w\<rparr>)
               | (True, t, w) \<Rightarrow> (True, x\<lparr>srv := bind_protocols ((srv x)\<lparr>sv_transport := Some t\<rparr>), fac := g, wos := w\<rparr>)))))"

definition ssn_server_address :: "resolver \<Rightarrow> 'u world \<Rightarrow> sockaddr option" where
  "ssn_server_address res x =
     (if \<not> valid (srv x) then None
      else case ssn_transport_get_address res (sv_transport (srv x)) of
        None \<Rightarrow> None
      | Some a \<Rightarrow> (if addr_type a \<in> {SSN_TRANSPORT_TLS, SSN_TRANSPORT_DTLS} then None else Some (addr_sock a)))"

definition ssn_server_ref :: "'u world \<Rightarrow> 'u world" where
  "ssn_server_ref x = x\<lparr>srv := (srv x)\<lparr>ref_count := ref_count (srv x) + 1\<rparr>\<rparr>"

definition ssn_server_free_resources :: "'u world \<Rightarrow> 'u world" where
  "ssn_server_free_resources x =
     (let s = srv x;
          w = (case sv_transport s of None \<Rightarrow> wos x | Some t \<Rightarrow> ssn_transport_destroy t (wos x));
          s = s\<lparr>sv_transport := None\<rparr>;
          w = ipc_event_pair_destroy (evt_fd s) w;
          (s, w) = fold ssn_server_cli_destroy (map cli_id (all_clis s)) (s, w);
          s = s\<lparr>cmds := replicate IPC_CMD_HASH_SIZE [], prefix_h := [], def_cmd := None\<rparr>
      in x\<lparr>srv := s\<lparr>freed := True\<rparr>, wos := os_unlink (srv_name s) w\<rparr>)"

definition ssn_server_unref :: "'u world \<Rightarrow> 'u world" where
  "ssn_server_unref x =
     (if ref_count (srv x) > 0 then
        let x = x\<lparr>srv := (srv x)\<lparr>ref_count := ref_count (srv x) - 1\<rparr>\<rparr> in
        if ref_count (srv x) = 0 \<and> \<not> valid (srv x) then ssn_server_free_resources x else x
      else x)"

definition ssn_server_destroy :: "'u world \<Rightarrow> 'u world" where
  "ssn_server_destroy x =
     (if \<not> valid (srv x) then x
      else ssn_server_unref (x\<lparr>srv := (srv x)\<lparr>listed := False, valid := False, msg_recv := None,
             pubsub_pub := None, rpc_rep := None\<rparr>\<rparr>))"

definition ssn_server_set_connect_handler :: "nat option \<Rightarrow> nat \<Rightarrow> 'u world \<Rightarrow> 'u world" where
  "ssn_server_set_connect_handler f arg x = x\<lparr>srv := (srv x)\<lparr>oncli := f, carg := arg\<rparr>\<rparr>"

definition ssn_server_set_message_handler :: "nat option \<Rightarrow> nat \<Rightarrow> 'u world \<Rightarrow> 'u world" where
  "ssn_server_set_message_handler f arg x = x\<lparr>srv := (srv x)\<lparr>onmsg := f, msg_arg := arg\<rparr>\<rparr>"

section \<open>Sending to clients\<close>

text \<open>\<^verbatim>\<open>ssn_server_cli_sendmsg\<close> sends the frame whose header is in the send buffer; when that fails the
  client's transport is disconnected.\<close>

definition ssn_server_cli_sendmsg ::
  "syscalls \<Rightarrow> u32 \<Rightarrow> ssn_url_ref option \<Rightarrow> ssn_data_ref option \<Rightarrow> 'u world \<Rightarrow> bool \<times> 'u world" where
  "ssn_server_cli_sendmsg sc i url data x = (case ssn_server_cli_find (srv x) i of
       None \<Rightarrow> (False, x)
     | Some cli \<Rightarrow> (case ssn_send_message sc (cli_transport cli) (sendbuf (srv x)) url data (wos x) of (ok, buf, t, w) \<Rightarrow>
         let (t, w) = (if ok then (t, w) else snd (ssn_transport_disconnect t w)) in
         (ok, x\<lparr>srv := (update_cli i (\<lambda>c. c\<lparr>cli_transport := t\<rparr>) (srv x))\<lparr>sendbuf := buf\<rparr>, wos := w\<rparr>)))"

definition create_header :: "byte \<Rightarrow> u32 \<Rightarrow> u16 \<Rightarrow> 'u world \<Rightarrow> 'u world" where
  "create_header ty status seqno x = x\<lparr>srv := (srv x)\<lparr>sendbuf := create_header_at (sendbuf (srv x)) ty status seqno\<rparr>\<rparr>"

text \<open>A reply: a new header in the send buffer, sent with no URL.\<close>

definition reply :: "syscalls \<Rightarrow> u32 \<Rightarrow> byte \<Rightarrow> u32 \<Rightarrow> u16 \<Rightarrow> ssn_data_ref option \<Rightarrow> 'u world \<Rightarrow> bool \<times> 'u world" where
  "reply sc i ty status seqno data x = ssn_server_cli_sendmsg sc i None data (create_header ty status seqno x)"

definition ssn_server_peer_close :: "u32 \<Rightarrow> 'u world \<Rightarrow> bool \<times> 'u world" where
  "ssn_server_peer_close i x =
     (if \<not> valid (srv x) then (False, x)
      else case ssn_server_cli_find (srv x) i of
        None \<Rightarrow> (False, x)
      | Some cli \<Rightarrow> (case ssn_transport_disconnect (cli_transport cli) (wos x) of (_, t, w) \<Rightarrow>
          (True, x\<lparr>srv := update_cli i (\<lambda>c. c\<lparr>cli_transport := t\<rparr>) (srv x), wos := w\<rparr>)))"

definition ssn_server_peer_count :: "'u world \<Rightarrow> int" where
  "ssn_server_peer_count x = (if \<not> valid (srv x) then 0 else int (length (filter active (all_clis (srv x)))))"

definition ssn_server_peer_list :: "int \<Rightarrow> 'u world \<Rightarrow> u32 list" where
  "ssn_server_peer_list max_cnt x =
     (if \<not> valid (srv x) \<or> max_cnt \<le> 0 then [] else take (nat max_cnt) (map cli_id (all_clis (srv x))))"

definition ssn_server_is_subscribed :: "ssn_url_ref option \<Rightarrow> 'u world \<Rightarrow> bool" where
  "ssn_server_is_subscribed url x \<longleftrightarrow> valid (srv x) \<and>
     (case url of None \<Rightarrow> False | Some u \<Rightarrow> url_ptr u \<noteq> None \<and> url_len u \<noteq> 0 \<and>
        list_ex (\<lambda>c. active c \<and> ssn_server_cli_sub_match c (url_bytes u)) (all_clis (srv x)))"

text \<open>One step of the publishing loop: the same header is used for every client.\<close>

definition publish_to ::
  "syscalls \<Rightarrow> ssn_url_ref \<Rightarrow> ssn_data_ref option \<Rightarrow> u32 \<Rightarrow> 'u world \<Rightarrow> 'u world" where
  "publish_to sc url data i x = (case ssn_server_cli_find (srv x) i of
       None \<Rightarrow> x
     | Some cli \<Rightarrow>
         if active cli \<and> ssn_server_cli_sub_match cli (url_bytes url)
         then snd (ssn_server_cli_sendmsg sc i (Some url) data x) else x)"

definition ssn_server_do_publish ::
  "syscalls \<Rightarrow> ssn_url_ref option \<Rightarrow> ssn_data_ref option \<Rightarrow> 'u world \<Rightarrow> bool \<times> 'u world" where
  "ssn_server_do_publish sc url data x =
     (if \<not> valid (srv x) \<or> \<not> good_url url then (False, x)
      else (True, fold (publish_to sc (the url) data) (map cli_id (all_clis (srv x)))
                    (create_header SSN_MSG_TYPE_PUBLISH 0 0 x)))"

definition ssn_server_publish ::
  "syscalls \<Rightarrow> ssn_url_ref option \<Rightarrow> ssn_data_ref option \<Rightarrow> 'u world \<Rightarrow> bool \<times> 'u world" where
  "ssn_server_publish sc url data x = ssn_server_do_publish sc url data x"

definition ssn_server_response ::
  "syscalls \<Rightarrow> u32 \<Rightarrow> u32 \<Rightarrow> u16 \<Rightarrow> ssn_data_ref option \<Rightarrow> 'u world \<Rightarrow> bool \<times> 'u world" where
  "ssn_server_response sc i status seqno data x =
     (if \<not> valid (srv x) then (False, x)
      else case ssn_server_cli_find (srv x) i of
        None \<Rightarrow> (False, x)
      | Some cli \<Rightarrow> reply sc i SSN_MSG_TYPE_RPC_REQUEST status seqno data x)"

definition ssn_server_cli_do_message ::
  "syscalls \<Rightarrow> u32 \<Rightarrow> ssn_url_ref option \<Rightarrow> ssn_data_ref option \<Rightarrow> 'u world \<Rightarrow> bool \<times> 'u world" where
  "ssn_server_cli_do_message sc i url data x =
     (if \<not> valid (srv x) \<or> \<not> good_url url \<or> data = None then (False, x)
      else case ssn_server_cli_find (srv x) i of
        None \<Rightarrow> (False, x)
      | Some cli \<Rightarrow> ssn_server_cli_sendmsg sc i url data (create_header SSN_MSG_TYPE_MESSAGE 0 0 x))"

definition ssn_server_message ::
  "syscalls \<Rightarrow> u32 \<Rightarrow> ssn_url_ref option \<Rightarrow> ssn_data_ref option \<Rightarrow> 'u world \<Rightarrow> bool \<times> 'u world" where
  "ssn_server_message sc i url data x = ssn_server_cli_do_message sc i url data x"

section \<open>Packets from a client\<close>

definition upd_cli :: "u32 \<Rightarrow> (server_cli \<Rightarrow> server_cli) \<Rightarrow> 'u world \<Rightarrow> 'u world" where
  "upd_cli i f x = x\<lparr>srv := update_cli i f (srv x)\<rparr>"

definition unlink_hst :: "u32 \<Rightarrow> 'u world \<Rightarrow> 'u world" where
  "unlink_hst i x = x\<lparr>srv := (srv x)\<lparr>hst_h := remove1 i (hst_h (srv x))\<rparr>\<rparr>"

definition call_oncli :: "'u server_env \<Rightarrow> u32 \<Rightarrow> bool \<Rightarrow> 'u world \<Rightarrow> 'u world" where
  "call_oncli env i b x = (case oncli (srv x) of None \<Rightarrow> x | Some f \<Rightarrow> cli_fn env f i b (carg (srv x)) x)"

text \<open>The client id in network byte order, as the reply to a service information request.\<close>

definition cid_data :: "u32 \<Rightarrow> ssn_data_ref" where
  "cid_data i = \<lparr>data_ptr = Some (le32 (ssn_htonl i)), data_length = 4\<rparr>"

definition ssn_server_handle_service_info ::
  "syscalls \<Rightarrow> 'u server_env \<Rightarrow> u32 \<Rightarrow> ssn_header \<Rightarrow> u16 \<Rightarrow> 'u world \<Rightarrow> 'u world" where
  "ssn_server_handle_service_info sc env i h seqno x =
     (let x = create_header (hdr_msg_type h) 0 seqno x;
          linked = (case ssn_server_cli_find (srv x) i of None \<Rightarrow> False | Some c \<Rightarrow> hst_linked c);
          x = (if keepalive_timeout (srv x) > 0
               then upd_cli i (\<lambda>c. c\<lparr>hst_alive := c_int (keepalive_timeout (srv x) * 1000)\<rparr>) x
               else if linked then unlink_hst i (upd_cli i (\<lambda>c. c\<lparr>hst_alive := 0, hst_linked := False\<rparr>) x)
               else x);
          x = snd (ssn_server_cli_sendmsg sc i None (Some (cid_data i)) x)
      in case ssn_server_cli_find (srv x) i of
           None \<Rightarrow> x
         | Some c \<Rightarrow> if \<not> onconn c then call_oncli env i True (upd_cli i (\<lambda>c. c\<lparr>onconn := True\<rparr>) x) else x)"

definition slash_url :: "ssn_url_ref \<Rightarrow> bool" where
  "slash_url u \<longleftrightarrow> url_len u \<noteq> 0 \<and> url_bytes u \<noteq> [] \<and> hd (url_bytes u) = 47"

definition ssn_server_handle_rpc_request ::
  "syscalls \<Rightarrow> 'u server_env \<Rightarrow> u32 \<Rightarrow> bytes \<Rightarrow> ssn_header \<Rightarrow> u16 \<Rightarrow> ssn_url_ref \<Rightarrow> 'u world \<Rightarrow> 'u world" where
  "ssn_server_handle_rpc_request sc env i p h seqno url x =
     (if slash_url url then
        (case ssn_server_cmd_match (srv x) (url_bytes url) of
           Some cmd \<Rightarrow> rpc_fn env (onrpc cmd) i p (cmd_arg cmd) x
         | None \<Rightarrow> snd (reply sc i (hdr_msg_type h) SSN_ECODE_NOT_FOUND seqno None x))
      else snd (reply sc i (hdr_msg_type h) SSN_ECODE_INVALID_ARGS seqno None x))"

definition ssn_server_handle_subscribe ::
  "syscalls \<Rightarrow> u32 \<Rightarrow> ssn_header \<Rightarrow> u16 \<Rightarrow> ssn_url_ref \<Rightarrow> 'u world \<Rightarrow> 'u world" where
  "ssn_server_handle_subscribe sc i h seqno url x =
     (let (status, x) =
        (if slash_url url then
           (case ssn_server_cli_find (srv x) i of
              None \<Rightarrow> (0, x)
            | Some cli \<Rightarrow>
                if list_ex (\<lambda>sub. sub = url_bytes url) (subscribed cli) then (0, x)
                else case os_calloc sc (wos x) of
                  (False, w) \<Rightarrow> (SSN_ECODE_OUT_OF_MEMORY, x\<lparr>wos := w\<rparr>)
                | (True, w) \<Rightarrow> (0, upd_cli i (\<lambda>c. c\<lparr>subscribed := url_bytes url # subscribed c\<rparr>) (x\<lparr>wos := w\<rparr>)))
         else (SSN_ECODE_INVALID_ARGS, x))
      in snd (reply sc i (hdr_msg_type h) status seqno None x))"

definition ssn_server_handle_unsubscribe ::
  "syscalls \<Rightarrow> u32 \<Rightarrow> ssn_header \<Rightarrow> u16 \<Rightarrow> ssn_url_ref \<Rightarrow> 'u world \<Rightarrow> 'u world" where
  "ssn_server_handle_unsubscribe sc i h seqno url x =
     (let x = upd_cli i (\<lambda>c. c\<lparr>subscribed :=
            (if slash_url url then remove1 (url_bytes url) (subscribed c) else [])\<rparr>) x
      in snd (reply sc i (hdr_msg_type h) 0 seqno None x))"

definition ssn_server_handle_ping_echo :: "syscalls \<Rightarrow> u32 \<Rightarrow> ssn_header \<Rightarrow> u16 \<Rightarrow> 'u world \<Rightarrow> 'u world" where
  "ssn_server_handle_ping_echo sc i h seqno x = snd (reply sc i (hdr_msg_type h) 0 seqno None x)"

text \<open>What every packet does first: the client is active, and its idle timer starts again.\<close>

definition touch :: "u32 \<Rightarrow> 'u world \<Rightarrow> 'u world" where
  "touch i x = upd_cli i (\<lambda>c. let c = c\<lparr>active := True\<rparr> in
     if keepalive_timeout (srv x) > 0 \<and> hst_alive c \<noteq> 0
     then c\<lparr>hst_alive := c_int (keepalive_timeout (srv x) * 1000)\<rparr> else c) x"

definition dispatch :: "syscalls \<Rightarrow> 'u server_env \<Rightarrow> u32 \<Rightarrow> bytes \<Rightarrow> 'u world \<Rightarrow> 'u world" where
  "dispatch sc env i p x =
     (let h = load_header p; seqno = ssn_get_seqno h; url = packet_url p; ty = hdr_msg_type h in
      if ty = SSN_MSG_TYPE_MESSAGE then
        (case onmsg (srv x) of None \<Rightarrow> x | Some f \<Rightarrow> msg_fn env f i url (packet_data p) (msg_arg (srv x)) x)
      else if ty = SSN_MSG_TYPE_SERVICE_INFO then ssn_server_handle_service_info sc env i h seqno x
      else if ty = SSN_MSG_TYPE_RPC_REQUEST then ssn_server_handle_rpc_request sc env i p h seqno url x
      else if ty = SSN_MSG_TYPE_SUBSCRIBE then ssn_server_handle_subscribe sc i h seqno url x
      else if ty = SSN_MSG_TYPE_UNSUBSCRIBE then ssn_server_handle_unsubscribe sc i h seqno url x
      else if ty = SSN_MSG_TYPE_PING_ECHO then ssn_server_handle_ping_echo sc i h seqno x
      else x)"

definition ssn_server_input :: "syscalls \<Rightarrow> 'u server_env \<Rightarrow> u32 \<Rightarrow> bytes \<Rightarrow> 'u world \<Rightarrow> bool \<times> 'u world" where
  "ssn_server_input sc env i p x = (let x = dispatch sc env i p (touch i x) in (valid (srv x), x))"

section \<open>The event loop\<close>

text \<open>\<^verbatim>\<open>ssn_server_fds\<close>: the largest descriptor and the set; both are empty when the server cannot be
  polled.\<close>

definition ssn_server_fds :: "ssn_server \<Rightarrow> int \<times> int list" where
  "ssn_server_fds s =
     (if \<not> valid s \<or> sv_transport s = None then (-1, [])
      else
        let server_fd = ssn_transport_get_fd (sv_transport s);
            rfds = (if server_fd \<ge> 0 then [server_fd] else []) @ [evt_fd s] @
              filter (\<lambda>fd. fd \<ge> 0) (map (\<lambda>c. ssn_transport_get_fd (Some (cli_transport c))) (all_clis s))
        in (fold max rfds (-1), rfds))"

definition destroy_cli :: "u32 \<Rightarrow> 'u world \<Rightarrow> 'u world" where
  "destroy_cli i x = (case ssn_server_cli_destroy i (srv x, wos x) of (s, w) \<Rightarrow> x\<lparr>srv := s, wos := w\<rparr>)"

text \<open>The end of a connection: the application is told if it was told of its start.\<close>

definition close_cli :: "'u server_env \<Rightarrow> u32 \<Rightarrow> 'u world \<Rightarrow> 'u world" where
  "close_cli env i x =
     (let told = (case ssn_server_cli_find (srv x) i of None \<Rightarrow> False | Some c \<Rightarrow> onconn c);
          x = (if told then call_oncli env i False (upd_cli i (\<lambda>c. c\<lparr>onconn := False\<rparr>) x) else x)
      in destroy_cli i x)"

definition feed_cli :: "syscalls \<Rightarrow> 'u server_env \<Rightarrow> u32 \<Rightarrow> ssn_stream_ctx \<Rightarrow> bytes \<Rightarrow> 'u world \<Rightarrow> 'u world" where
  "feed_cli sc env i recv bs x = (case ssn_stream_feed (ssn_server_input sc env i) recv bs x of
     (_, recv, x) \<Rightarrow> upd_cli i (\<lambda>c. c\<lparr>cli_recv := recv\<rparr>) x)"

definition ssn_server_handle_client_input ::
  "syscalls \<Rightarrow> 'u server_env \<Rightarrow> int list \<Rightarrow> u32 \<Rightarrow> 'u world \<Rightarrow> 'u world" where
  "ssn_server_handle_client_input sc env rfds i x = (case ssn_server_cli_find (srv x) i of
       None \<Rightarrow> x
     | Some cli \<Rightarrow>
         let cli_fd = ssn_transport_get_fd (Some (cli_transport cli)) in
         if cli_fd \<ge> 0 \<and> cli_fd \<in> set rfds then
           (case ssn_transport_recv sc (cli_transport cli) SSN_MAX_PACKET_SIZE 0 (wos x) of (num, bs, t, w) \<Rightarrow>
              let x = (upd_cli i (\<lambda>c. c\<lparr>cli_transport := t\<rparr>) x)\<lparr>wos := w\<rparr> in
              if num > 0 then feed_cli sc env i (cli_recv cli) bs x
              else if num = 0 \<or> os_errno w \<noteq> EAGAIN then close_cli env i x
              else x)
         else x)"

text \<open>A new client is a zeroed structure with the transport and an empty stream.\<close>

definition new_cli :: "ssn_transport \<Rightarrow> server_cli" where
  "new_cli t = \<lparr>active = False, onconn = False, subscribed = [], hst_alive = 0, hst_linked = False,
     cli_recv = ssn_stream_init \<lparr>cur_len = 0, head = 0, total_len = 0, buffer = []\<rparr>, cli_transport = t, cli_id = 0\<rparr>"

definition ssn_server_handle_new_connection ::
  "syscalls \<Rightarrow> resolver \<Rightarrow> bytes option \<Rightarrow> int list \<Rightarrow> 'u world \<Rightarrow> 'u world option" where
  "ssn_server_handle_new_connection sc res junk rfds x =
     (let server_fd = ssn_transport_get_fd (sv_transport (srv x)) in
      if server_fd \<ge> 0 \<and> server_fd \<in> set rfds then
        (case ssn_transport_accept sc res junk (the (sv_transport (srv x))) 0 (fac x) (wos x) of
           (None, g, w) \<Rightarrow> Some (x\<lparr>fac := g, wos := w\<rparr>)
         | (Some (t, _), g, w) \<Rightarrow>
             let x = x\<lparr>fac := g, wos := w\<rparr>; cli_total = (of_nat (length (all_clis (srv x))) :: u32) in
             if cli_total \<ge> max_connections (srv x) then Some (x\<lparr>wos := ssn_transport_destroy t w\<rparr>)
             else (case os_calloc sc w of
                 (False, w) \<Rightarrow> Some (x\<lparr>wos := ssn_transport_destroy t w\<rparr>)
               | (True, w) \<Rightarrow> map_option (\<lambda>s. x\<lparr>srv := s, wos := w\<rparr>) (ssn_server_cli_init (new_cli t) (srv x))))
      else Some x)"

text \<open>A client whose timer has run out is taken out of the timer list, disconnected and destroyed.\<close>

definition expire_cli :: "u32 \<Rightarrow> 'u world \<Rightarrow> 'u world" where
  "expire_cli i x = (case ssn_server_cli_find (srv x) i of
       None \<Rightarrow> x
     | Some cli \<Rightarrow>
         if hst_alive cli = 0 then
           (case ssn_transport_disconnect (cli_transport cli) (wos x) of (_, t, w) \<Rightarrow>
              destroy_cli i (unlink_hst i ((upd_cli i (\<lambda>c. c\<lparr>hst_linked := False, cli_transport := t\<rparr>) x)\<lparr>wos := w\<rparr>)))
         else x)"

definition ssn_server_handle_event_input :: "int list \<Rightarrow> 'u world \<Rightarrow> 'u world" where
  "ssn_server_handle_event_input rfds x =
     (if evt_fd (srv x) \<in> set rfds then
        fold expire_cli (hst_h (srv x)) (x\<lparr>srv := (srv x)\<lparr>evt_count := ipc_event_pair_drain (evt_count (srv x))\<rparr>\<rparr>)
      else x)"

text \<open>The loop over one bucket keeps the next client while it handles one.\<close>

definition input_bucket :: "syscalls \<Rightarrow> 'u server_env \<Rightarrow> int list \<Rightarrow> nat \<Rightarrow> 'u world \<Rightarrow> 'u world" where
  "input_bucket sc env rfds h x =
     fold (ssn_server_handle_client_input sc env rfds) (map cli_id (clis (srv x) ! h)) x"

definition ssn_server_input_fds ::
  "syscalls \<Rightarrow> resolver \<Rightarrow> bytes option \<Rightarrow> 'u server_env \<Rightarrow> int list \<Rightarrow> 'u world \<Rightarrow> 'u world option" where
  "ssn_server_input_fds sc res junk env rfds x =
     (if \<not> valid (srv x) then Some x
      else map_option (ssn_server_handle_event_input rfds)
        (ssn_server_handle_new_connection sc res junk rfds
          (fold (input_bucket sc env rfds) [0..<IPC_CLI_HASH_SIZE] x)))"

definition poll_timeout :: "int \<Rightarrow> (int \<times> int) option" where
  "poll_timeout ms = (if ms \<ge> 0 then Some (ms div 1000, ms mod 1000 * 1000000) else None)"

text \<open>\<^verbatim>\<open>pselect(max_fd + 1, ...)\<close> looks at the descriptors up to \<^verbatim>\<open>max_fd\<close>.\<close>

definition server_pselect ::
  "syscalls \<Rightarrow> (int \<times> int) option \<Rightarrow> 'u world \<Rightarrow> (int \<times> int list \<times> 'u world) option" where
  "server_pselect sc timeout x = (case ssn_server_fds (srv x) of (max_fd, rfds) \<Rightarrow>
     map_option (\<lambda>(cnt, ready, w). (cnt, ready, x\<lparr>wos := w\<rparr>))
       (pselect_retry sc (filter (\<lambda>fd. fd < max_fd + 1) rfds) timeout (wos x)))"

definition ssn_server_poll ::
  "syscalls \<Rightarrow> resolver \<Rightarrow> bytes option \<Rightarrow> 'u server_env \<Rightarrow> int \<Rightarrow> 'u world \<Rightarrow> (int \<times> 'u world) option" where
  "ssn_server_poll sc res junk env timeout_ms x =
     (case server_pselect sc (poll_timeout timeout_ms) (ssn_server_ref x) of
        None \<Rightarrow> None
      | Some (cnt, ready, x) \<Rightarrow>
          if cnt > 0 then map_option (\<lambda>x. (0, ssn_server_unref x)) (ssn_server_input_fds sc res junk env ready x)
          else Some (cnt, ssn_server_unref x))"

partial_function (option) server_loop ::
  "syscalls \<Rightarrow> resolver \<Rightarrow> bytes option \<Rightarrow> 'u server_env \<Rightarrow> 'u world \<Rightarrow> 'u world option" where
  "server_loop sc res junk env x =
     (if \<not> valid (srv x) \<or> fst (ssn_server_fds (srv x)) < 0 then Some x
      else case server_pselect sc None x of
        None \<Rightarrow> None
      | Some (cnt, ready, x) \<Rightarrow>
          if cnt > 0 then
            (case ssn_server_input_fds sc res junk env ready x of None \<Rightarrow> None | Some x \<Rightarrow> server_loop sc res junk env x)
          else server_loop sc res junk env x)"

declare server_loop.simps [code]

definition ssn_server_run ::
  "syscalls \<Rightarrow> resolver \<Rightarrow> bytes option \<Rightarrow> 'u server_env \<Rightarrow> 'u world \<Rightarrow> 'u world option" where
  "ssn_server_run sc res junk env x = map_option ssn_server_unref (server_loop sc res junk env (ssn_server_ref x))"

section \<open>The timer thread\<close>

definition tick_hst :: "server_cli \<Rightarrow> server_cli" where
  "tick_hst c = (if hst_alive c \<le> SSN_TIMER_PERIOD then c\<lparr>hst_alive := 0\<rparr>
     else c\<lparr>hst_alive := hst_alive c - SSN_TIMER_PERIOD\<rparr>)"

text \<open>One pass of \<^verbatim>\<open>ssn_server_timer_handle\<close> over one server of the list.\<close>

definition timer_server :: "ssn_server \<Rightarrow> ssn_server" where
  "timer_server s =
     (if hst_h s = [] then s
      else
        let emit = list_ex (\<lambda>i. case ssn_server_cli_find s i of None \<Rightarrow> False
              | Some c \<Rightarrow> hst_alive c \<le> SSN_TIMER_PERIOD) (hst_h s);
            s = fold (\<lambda>i. update_cli i tick_hst) (hst_h s) s
        in if emit then s\<lparr>evt_count := ipc_event_pair_signal (evt_count s)\<rparr> else s)"

definition ssn_server_timer_pass :: "ssn_server list \<Rightarrow> ssn_server list" where
  "ssn_server_timer_pass ss = map (\<lambda>s. if listed s then timer_server s else s) ss"

end
