(* ===== verification/Ssn_Server_Inv.thy ===== *)
theory Ssn_Server_Inv
  imports Ssn_Server
begin

text \<open>
  The invariant of the server.

  The hash table of clients refines the list of all clients (\<open>all_clis\<close>): looking up, changing,
  adding and destroying a client are the plain operations on that list. On top of it stand the
  invariant of the server and of the descriptors it owns, what the application's handlers may do (the
  calls of the public functions, \<open>api_step\<close>), and the reachable states.
\<close>

section \<open>The table of clients\<close>

lemma cli_hash_less: "cli_hash i < IPC_CLI_HASH_SIZE"
proof -
  have "i AND 63 \<le> 63" by (rule word_and_le1)
  then show ?thesis by (simp add: cli_hash_def IPC_CLI_HASH_SIZE_def word_le_nat_alt)
qed

definition table_ok :: "ssn_server \<Rightarrow> bool" where
  "table_ok s \<longleftrightarrow> length (clis s) = IPC_CLI_HASH_SIZE \<and>
     (\<forall>h < IPC_CLI_HASH_SIZE. \<forall>c \<in> set (clis s ! h). cli_hash (cli_id c) = h)"

lemma table_bucket:
  "table_ok s \<Longrightarrow> k < length (clis s) \<Longrightarrow> c \<in> set (clis s ! k) \<Longrightarrow> cli_hash (cli_id c) = k"
  by (simp add: table_ok_def)

lemma table_hash_less: "table_ok s \<Longrightarrow> cli_hash i < length (clis s)"
  by (simp add: table_ok_def cli_hash_less)

lemma find_refines:
  "table_ok s \<Longrightarrow> ssn_server_cli_find s i = List.find (\<lambda>c. cli_id c = i) (all_clis s)"
  unfolding ssn_server_cli_find_def all_clis_def
  by (rule find_concat [symmetric]) (auto simp: table_hash_less dest: table_bucket)

lemma update_refines:
  assumes "table_ok s"
  shows "all_clis (update_cli i f s) = map (\<lambda>c. if cli_id c = i then f c else c) (all_clis s)"
proof -
  let ?F = "map (\<lambda>c. if cli_id c = i then f c else c)"
  have "all_clis (update_cli i f s) = concat ((clis s)[cli_hash i := ?F (clis s ! cli_hash i)])"
    by (simp add: all_clis_def update_cli_def)
  also have "\<dots> = concat (map ?F (clis s))"
    using assms by (intro concat_update) (auto simp: table_hash_less intro!: map_idI dest!: table_bucket)
  finally show ?thesis by (simp add: all_clis_def map_concat)
qed

lemma own_bucket: "table_ok s \<Longrightarrow> c \<in> set (clis s ! cli_hash i) \<Longrightarrow> cli_hash (cli_id c) = cli_hash i"
  by (metis table_bucket table_hash_less)

lemma bucket_update:
  assumes "table_ok s" "\<And>c. c \<in> set b \<Longrightarrow> cli_hash (cli_id c) = cli_hash i" "clis s' = (clis s)[cli_hash i := b]"
  shows "table_ok s'"
  unfolding table_ok_def
proof (intro conjI allI impI ballI)
  show "length (clis s') = IPC_CLI_HASH_SIZE" using assms(1,3) by (simp add: table_ok_def)
  fix h c
  assume h: "h < IPC_CLI_HASH_SIZE" and c: "c \<in> set (clis s' ! h)"
  have len: "length (clis s) = IPC_CLI_HASH_SIZE" using assms(1) by (simp add: table_ok_def)
  show "cli_hash (cli_id c) = h"
  proof (cases "h = cli_hash i")
    case True
    then have "clis s' ! h = b" using assms(3) h len by simp
    with c True assms(2) show ?thesis by simp
  next
    case False
    then have "clis s' ! h = clis s ! h" using assms(3) by simp
    with c h table_bucket [OF assms(1)] len show ?thesis by simp
  qed
qed

lemma update_table_ok:
  assumes "table_ok s" "\<And>c. cli_id (f c) = cli_id c"
  shows "table_ok (update_cli i f s)"
proof (rule bucket_update [OF assms(1)])
  show "clis (update_cli i f s) = (clis s)[cli_hash i := map (\<lambda>c. if cli_id c = i then f c else c) (clis s ! cli_hash i)]"
    by (simp add: update_cli_def)
next
  fix c
  assume "c \<in> set (map (\<lambda>c. if cli_id c = i then f c else c) (clis s ! cli_hash i))"
  then obtain c0 where "c0 \<in> set (clis s ! cli_hash i)" "cli_id c = cli_id c0" using assms(2) by auto
  then show "cli_hash (cli_id c) = cli_hash i" using own_bucket [OF assms(1)] by metis
qed

lemma destroy_refines:
  assumes "table_ok s" "ssn_server_cli_destroy i (s, w) = (s', w')"
  shows "all_clis s' = filter (\<lambda>c. cli_id c \<noteq> i) (all_clis s) \<and> table_ok s'"
proof (cases "ssn_server_cli_find s i")
  case None
  with assms have "\<forall>c \<in> set (all_clis s). cli_id c \<noteq> i" by (simp add: find_refines find_None_iff)
  then have "filter (\<lambda>c. cli_id c \<noteq> i) (all_clis s) = all_clis s" by (rule filter_True)
  with None assms show ?thesis by (simp add: ssn_server_cli_destroy_def)
next
  case (Some c)
  let ?F = "filter (\<lambda>c. cli_id c \<noteq> i)"
  have c: "clis s' = (clis s)[cli_hash i := ?F (clis s ! cli_hash i)]"
    using assms(2) Some by (auto simp: ssn_server_cli_destroy_def)
  have "concat ((clis s)[cli_hash i := ?F (clis s ! cli_hash i)]) = concat (map ?F (clis s))"
    using assms(1) by (intro concat_update) (auto simp: table_hash_less intro!: filter_True dest!: table_bucket)
  moreover have "table_ok s'"
    using own_bucket [OF assms(1)] by (intro bucket_update [OF assms(1) _ c]) auto
  ultimately show ?thesis by (simp add: all_clis_def filter_concat c)
qed

text \<open>The search for an id: it ends when the table has fewer clients than there are ids, and the id is
  new.\<close>

lemma newid_unfold:
  "ssn_server_cli_newid s = (if ssn_server_cli_find s (ncid s) = None then Some (ncid s, s\<lparr>ncid := ncid s + 1\<rparr>)
     else ssn_server_cli_newid (s\<lparr>ncid := ncid s + 1\<rparr>))"
  by (subst ssn_server_cli_newid.simps) (simp add: Let_def ssn_server_cli_find_def)

lemma newid_steps:
  "(\<And>j. j < k \<Longrightarrow> ssn_server_cli_find s (ncid s + of_nat j) \<noteq> None) \<Longrightarrow>
   ssn_server_cli_find s (ncid s + of_nat k) = None \<Longrightarrow>
   ssn_server_cli_newid s = Some (ncid s + of_nat k, s\<lparr>ncid := ncid s + of_nat k + 1\<rparr>)"
proof (induction k arbitrary: s)
  case 0
  then show ?case by (simp add: newid_unfold [of s])
next
  case (Suc k)
  let ?s = "s\<lparr>ncid := ncid s + 1\<rparr>"
  have f: "ssn_server_cli_find ?s j = ssn_server_cli_find s j" for j by (simp add: ssn_server_cli_find_def)
  have "ssn_server_cli_find s (ncid s) \<noteq> None" using Suc.prems(1) [of 0] by simp
  then have "ssn_server_cli_newid s = ssn_server_cli_newid ?s" by (subst newid_unfold) (rule if_not_P)
  also have "\<dots> = Some (ncid ?s + of_nat k, ?s\<lparr>ncid := ncid ?s + of_nat k + 1\<rparr>)"
  proof (rule Suc.IH)
    fix j assume "j < k"
    then show "ssn_server_cli_find ?s (ncid ?s + of_nat j) \<noteq> None"
      using Suc.prems(1) [of "Suc j"] by (simp add: f add.assoc)
  qed (use Suc.prems(2) in \<open>simp add: f add.assoc\<close>)
  finally show ?case by (simp add: algebra_simps)
qed

lemma newid_fresh:
  assumes tab: "table_ok s" and small: "length (all_clis s) < 2 ^ 32"
  shows "\<exists>i n. ssn_server_cli_newid s = Some (i, s\<lparr>ncid := n\<rparr>) \<and> i \<notin> cli_id ` set (all_clis s) \<and>
    (\<exists>k. i = ncid s + of_nat k \<and> n = i + 1 \<and> (\<forall>j < k. ncid s + of_nat j \<in> cli_id ` set (all_clis s)))"
proof -
  have used: "ssn_server_cli_find s i = None \<longleftrightarrow> i \<notin> cli_id ` set (all_clis s)" for i
    using tab by (auto simp: find_refines find_None_iff)
  have "\<exists>k. ncid s + of_nat k \<notin> cli_id ` set (all_clis s)"
  proof (rule ccontr)
    assume "\<not> ?thesis"
    then have "ncid s + of_nat (unat (i - ncid s)) \<in> cli_id ` set (all_clis s)" for i by blast
    then have "(UNIV :: u32 set) \<subseteq> cli_id ` set (all_clis s)" by auto
    then have "card (UNIV :: u32 set) \<le> card (cli_id ` set (all_clis s))" by (intro card_mono) auto
    also have "\<dots> \<le> length (all_clis s)" by (metis card_image_le card_length finite_set le_trans)
    finally show False using small by (simp add: card_word)
  qed
  then obtain k where k: "ncid s + of_nat k \<notin> cli_id ` set (all_clis s)"
    and lt: "\<forall>j < k. ncid s + of_nat j \<in> cli_id ` set (all_clis s)"
    using exists_least_iff [of "\<lambda>k. ncid s + of_nat k \<notin> cli_id ` set (all_clis s)"] by metis
  have "ssn_server_cli_newid s = Some (ncid s + of_nat k, s\<lparr>ncid := ncid s + of_nat k + 1\<rparr>)"
    by (rule newid_steps) (use k lt used in blast)+
  with k lt show ?thesis by blast
qed

lemma init_refines:
  assumes tab: "table_ok s" and small: "length (all_clis s) < 2 ^ 32"
  shows "\<exists>i n s' xs ys. ssn_server_cli_init cli s = Some s' \<and> i \<notin> cli_id ` set (all_clis s) \<and>
    all_clis s = xs @ ys \<and> table_ok s' \<and> s' = s\<lparr>ncid := n, clis := clis s', hst_h := i # hst_h s\<rparr> \<and>
    all_clis s' = xs @ cli\<lparr>cli_id := i, hst_alive := handshake_timeout s, hst_linked := True\<rparr> # ys"
proof -
  from newid_fresh [OF tab small] obtain i n where n: "ssn_server_cli_newid s = Some (i, s\<lparr>ncid := n\<rparr>)"
    and i: "i \<notin> cli_id ` set (all_clis s)" by blast
  let ?c = "cli\<lparr>cli_id := i, hst_alive := handshake_timeout s, hst_linked := True\<rparr>" and ?h = "cli_hash i"
  define s' where "s' = s\<lparr>ncid := n, clis := (clis s)[?h := ?c # clis s ! ?h], hst_h := i # hst_h s\<rparr>"
  have h: "?h < length (clis s)" using tab by (rule table_hash_less)
  have "ssn_server_cli_init cli s = Some s'"
    unfolding ssn_server_cli_init_def n s'_def by (simp add: Let_def)
  moreover have "table_ok s'"
  proof (rule bucket_update [OF tab])
    show "clis s' = (clis s)[?h := ?c # clis s ! ?h]" by (simp add: s'_def)
  qed (use own_bucket [OF tab] in auto)
  moreover have "all_clis s = concat (take ?h (clis s)) @ (clis s ! ?h @ concat (drop (Suc ?h) (clis s)))"
    unfolding all_clis_def using h by (metis concat.simps(2) concat_append id_take_nth_drop)
  moreover have "all_clis s' = concat (take ?h (clis s)) @ ?c # (clis s ! ?h @ concat (drop (Suc ?h) (clis s)))"
    unfolding all_clis_def s'_def using h by (simp add: upd_conv_take_nth_drop)
  moreover have "s' = s\<lparr>ncid := n, clis := clis s', hst_h := i # hst_h s\<rparr>" by (simp add: s'_def)
  ultimately show ?thesis using i by blast
qed

section \<open>The invariant\<close>

text \<open>Every client is in the bucket of its id, ids are distinct, the timer list holds exactly the
  linked clients, every stream context is as \<^verbatim>\<open>ssn_stream_feed\<close> left it, and there are no more
  clients than the configured maximum.\<close>

definition cli_ok :: "server_cli \<Rightarrow> bool" where
  "cli_ok c \<longleftrightarrow> stream_inv (cli_recv c) \<and> incomplete (pending (cli_recv c))"

definition clients_inv :: "ssn_server \<Rightarrow> bool" where
  "clients_inv s \<longleftrightarrow> table_ok s \<and> distinct (map cli_id (all_clis s)) \<and>
     distinct (hst_h s) \<and> set (hst_h s) = set (map cli_id (filter hst_linked (all_clis s))) \<and>
     (\<forall>c \<in> set (all_clis s). cli_ok c) \<and> length (all_clis s) \<le> unat (max_connections s)"

text \<open>The descriptors of the listener, the event pair and the clients are open and pairwise distinct.\<close>

abbreviation cli_fds :: "server_cli \<Rightarrow> int set" where
  "cli_fds c \<equiv> fds (cli_transport c)"

definition listen_fds :: "ssn_server \<Rightarrow> int set" where
  "listen_fds s = (case sv_transport s of None \<Rightarrow> {} | Some t \<Rightarrow> fds t)"

definition event_fds :: "ssn_server \<Rightarrow> int set" where
  "event_fds s = (if freed s \<or> evt_fd s < 0 then {} else {evt_fd s})"

definition fds_inv :: "ssn_server \<Rightarrow> os \<Rightarrow> bool" where
  "fds_inv s w \<longleftrightarrow>
     listen_fds s \<union> event_fds s \<subseteq> set (os_open w) \<and> listen_fds s \<inter> event_fds s = {} \<and>
     (\<forall>c \<in> set (all_clis s). cli_fds c \<subseteq> set (os_open w) - (listen_fds s \<union> event_fds s)) \<and>
     (\<forall>c \<in> set (all_clis s). \<forall>d \<in> set (all_clis s). cli_id c \<noteq> cli_id d \<longrightarrow> cli_fds c \<inter> cli_fds d = {})"

text \<open>The reference count is the number \<open>k\<close> of running calls of poll, and one more while the server
  is valid; the server has been freed exactly when it is zero.\<close>

definition server_inv :: "int \<Rightarrow> 'u world \<Rightarrow> bool" where
  "server_inv k x \<longleftrightarrow> clients_inv (srv x) \<and> fds_inv (srv x) (wos x) \<and>
     ref_count (srv x) = k + of_bool (valid (srv x)) \<and> (freed (srv x) \<longleftrightarrow> ref_count (srv x) = 0)"

lemma update_cli_sel [simp]:
  "hst_h (update_cli i f s) = hst_h s" "max_connections (update_cli i f s) = max_connections s"
  "sv_transport (update_cli i f s) = sv_transport s" "evt_fd (update_cli i f s) = evt_fd s"
  "freed (update_cli i f s) = freed s" "ref_count (update_cli i f s) = ref_count s"
  "valid (update_cli i f s) = valid s" "keepalive_timeout (update_cli i f s) = keepalive_timeout s"
  "sendbuf (update_cli i f s) = sendbuf s" "listed (update_cli i f s) = listed s"
  "onmsg (update_cli i f s) = onmsg s" "msg_arg (update_cli i f s) = msg_arg s"
  "oncli (update_cli i f s) = oncli s" "carg (update_cli i f s) = carg s" "cmds (update_cli i f s) = cmds s"
  "prefix_h (update_cli i f s) = prefix_h s" "def_cmd (update_cli i f s) = def_cmd s"
  "listen_fds (update_cli i f s) = listen_fds s" "event_fds (update_cli i f s) = event_fds s"
  by (simp_all add: update_cli_def listen_fds_def event_fds_def)

lemma upd_cli_sel [simp]:
  "srv (upd_cli i f x) = update_cli i f (srv x)" "wos (upd_cli i f x) = wos x" "usr (upd_cli i f x) = usr x"
  "fac (upd_cli i f x) = fac x"
  by (simp_all add: upd_cli_def)

text \<open>The state that matters to the invariant: other fields may change freely.\<close>

lemma clients_inv_cong:
  "clis s' = clis s \<Longrightarrow> hst_h s' = hst_h s \<Longrightarrow> max_connections s' = max_connections s \<Longrightarrow> clients_inv s' = clients_inv s"
  by (simp add: clients_inv_def table_ok_def all_clis_def)

lemma fds_inv_cong:
  "clis s' = clis s \<Longrightarrow> sv_transport s' = sv_transport s \<Longrightarrow> freed s' = freed s \<Longrightarrow> evt_fd s' = evt_fd s \<Longrightarrow>
   fds_inv s' w = fds_inv s w"
  by (simp add: fds_inv_def listen_fds_def event_fds_def all_clis_def)

lemma server_inv_frame:
  assumes "server_inv k x" "clis (srv x') = clis (srv x)" "hst_h (srv x') = hst_h (srv x)"
    "max_connections (srv x') = max_connections (srv x)" "sv_transport (srv x') = sv_transport (srv x)"
    "freed (srv x') = freed (srv x)" "evt_fd (srv x') = evt_fd (srv x)" "ref_count (srv x') = ref_count (srv x)"
    "valid (srv x') = valid (srv x)" "os_open (wos x') = os_open (wos x)"
  shows "server_inv k x'"
proof -
  have "fds_inv (srv x') (wos x') = fds_inv (srv x) (wos x)"
    using fds_inv_cong [OF assms(2,5,6,7), of "wos x'"] assms(10) by (simp add: fds_inv_def)
  with assms clients_inv_cong [OF assms(2-4)] show ?thesis by (simp add: server_inv_def)
qed

text \<open>A change to one client.\<close>

definition change_ok :: "server_cli \<Rightarrow> server_cli \<Rightarrow> bool" where
  "change_ok c c' \<longleftrightarrow> cli_id c' = cli_id c \<and> hst_linked c' = hst_linked c \<and> cli_ok c' \<and> cli_fds c' \<subseteq> cli_fds c"

lemma clients_inv_update:
  assumes inv: "clients_inv s" and id: "\<And>c. cli_id (f c) = cli_id c"
    and f: "\<And>c. c \<in> set (all_clis s) \<Longrightarrow> cli_id c = i \<Longrightarrow> change_ok c (f c)"
  shows "clients_inv (update_cli i f s)"
proof -
  have tab: "table_ok s" using inv by (simp add: clients_inv_def)
  define g where "g = (\<lambda>c. if cli_id c = i then f c else c)"
  have all: "all_clis (update_cli i f s) = map g (all_clis s)" using update_refines [OF tab] by (simp add: g_def)
  have g: "cli_id (g c) = cli_id c \<and> hst_linked (g c) = hst_linked c \<and> cli_ok (g c)" if "c \<in> set (all_clis s)" for c
    using f [OF that] inv that by (auto simp: g_def change_ok_def clients_inv_def)
  have "map cli_id (filter hst_linked (map g xs)) = map cli_id (filter hst_linked xs)"
    if "set xs \<subseteq> set (all_clis s)" for xs
    using that g by (induction xs) (auto simp: id)
  from this [OF subset_refl] have linked: "map cli_id (filter hst_linked (map g (all_clis s))) = map cli_id (filter hst_linked (all_clis s))" .
  have ids: "map cli_id (map g (all_clis s)) = map cli_id (all_clis s)" using g by simp
  have ok: "\<forall>c \<in> set (map g (all_clis s)). cli_ok c" using g by auto
  show ?thesis
    unfolding clients_inv_def all linked ids
    using inv update_table_ok [OF tab id] ok by (simp add: clients_inv_def)
qed

lemma clients_invD:
  "clients_inv s \<Longrightarrow> table_ok s" "clients_inv s \<Longrightarrow> c \<in> set (all_clis s) \<Longrightarrow> cli_ok c"
  "clients_inv s \<Longrightarrow> c \<in> set (all_clis s) \<Longrightarrow> d \<in> set (all_clis s) \<Longrightarrow> cli_id c = cli_id d \<Longrightarrow> c = d"
  by (auto simp: clients_inv_def distinct_map inj_on_def)

lemma find_cli:
  assumes "clients_inv s"
  shows "ssn_server_cli_find s i = Some c \<longleftrightarrow> c \<in> set (all_clis s) \<and> cli_id c = i"
    "ssn_server_cli_find s i = None \<longleftrightarrow> i \<notin> cli_id ` set (all_clis s)"
proof -
  note f = find_refines [OF clients_invD(1) [OF assms], of i]
  show "ssn_server_cli_find s i = None \<longleftrightarrow> i \<notin> cli_id ` set (all_clis s)" unfolding f by (auto simp: find_None_iff)
  show "ssn_server_cli_find s i = Some c \<longleftrightarrow> c \<in> set (all_clis s) \<and> cli_id c = i"
  proof
    assume "ssn_server_cli_find s i = Some c"
    then show "c \<in> set (all_clis s) \<and> cli_id c = i" unfolding f by (auto simp: find_Some_iff)
  next
    assume c: "c \<in> set (all_clis s) \<and> cli_id c = i"
    then obtain d where d: "List.find (\<lambda>c. cli_id c = i) (all_clis s) = Some d"
      by (cases "List.find (\<lambda>c. cli_id c = i) (all_clis s)") (auto simp: find_None_iff)
    then have "d \<in> set (all_clis s)" "cli_id d = i" by (auto simp: find_Some_iff)
    with c clients_invD(3) [OF assms] have "d = c" by metis
    with d f show "ssn_server_cli_find s i = Some c" by simp
  qed
qed

lemma find_update:
  assumes "clients_inv s" "\<And>c. cli_id (f c) = cli_id c"
  shows "ssn_server_cli_find (update_cli i f s) j =
    (if j = i then map_option f (ssn_server_cli_find s i) else ssn_server_cli_find s j)"
proof -
  note tab = clients_invD(1) [OF assms(1)]
  have "List.find (\<lambda>c. cli_id c = j) (map (\<lambda>c. if cli_id c = i then f c else c) xs) =
      (if j = i then map_option f (List.find (\<lambda>c. cli_id c = i) xs) else List.find (\<lambda>c. cli_id c = j) xs)" for xs
    by (induction xs) (auto simp: assms(2))
  then show ?thesis
    by (simp add: find_refines [OF update_table_ok [OF tab assms(2)]] find_refines [OF tab] update_refines [OF tab])
qed

lemma fds_inv_update:
  assumes inv: "fds_inv s w" and cl: "clients_inv s"
    and f: "\<And>c. c \<in> set (all_clis s) \<Longrightarrow> cli_id c = i \<Longrightarrow> change_ok c (f c)"
    and w: "set (os_open w) - D \<subseteq> set (os_open w')"
    and D: "D \<noteq> {} \<Longrightarrow> \<exists>c \<in> set (all_clis s). cli_id c = i \<and> D \<subseteq> cli_fds c \<and> D \<inter> cli_fds (f c) = {}"
  shows "fds_inv (update_cli i f s) w'"
proof -
  define g where "g = (\<lambda>c. if cli_id c = i then f c else c)"
  have all: "all_clis (update_cli i f s) = map g (all_clis s)"
    using update_refines [OF clients_invD(1) [OF cl]] by (simp add: g_def)
  have g: "cli_id (g c) = cli_id c \<and> cli_fds (g c) \<subseteq> cli_fds c" if "c \<in> set (all_clis s)" for c
    using f [OF that] by (auto simp: g_def change_ok_def)
  have base: "listen_fds s \<union> event_fds s \<subseteq> set (os_open w)" "listen_fds s \<inter> event_fds s = {}"
    and each: "\<And>c. c \<in> set (all_clis s) \<Longrightarrow> cli_fds c \<subseteq> set (os_open w) - (listen_fds s \<union> event_fds s)"
    and pair: "\<And>c d. c \<in> set (all_clis s) \<Longrightarrow> d \<in> set (all_clis s) \<Longrightarrow> cli_id c \<noteq> cli_id d \<Longrightarrow> cli_fds c \<inter> cli_fds d = {}"
    using inv by (simp_all add: fds_inv_def)
  have Db: "D \<inter> (listen_fds s \<union> event_fds s) = {}" using D each by blast
  have Dc: "D \<inter> cli_fds (g c) = {}" if c: "c \<in> set (all_clis s)" for c
  proof (cases "D = {}")
    case False
    with D obtain d where d: "d \<in> set (all_clis s)" "cli_id d = i" "D \<subseteq> cli_fds d" "D \<inter> cli_fds (f d) = {}" by blast
    show ?thesis
    proof (cases "cli_id c = i")
      case True
      with d c have "c = d" using clients_invD(3) [OF cl] by metis
      with d True show ?thesis by (simp add: g_def)
    next
      case False
      with pair [OF c d(1)] d g [OF c] show ?thesis by blast
    qed
  qed simp
  have "cli_fds (g c) \<subseteq> set (os_open w') - (listen_fds s \<union> event_fds s)" if "c \<in> set (all_clis s)" for c
    using each [OF that] g [OF that] Dc [OF that] w by blast
  moreover have "cli_fds (g c) \<inter> cli_fds (g d) = {}"
    if "c \<in> set (all_clis s)" "d \<in> set (all_clis s)" "cli_id (g c) \<noteq> cli_id (g d)" for c d
  proof -
    have "cli_fds c \<inter> cli_fds d = {}" using pair [OF that(1,2)] g [OF that(1)] g [OF that(2)] that(3) by metis
    then show ?thesis using g [OF that(1)] g [OF that(2)] by blast
  qed
  moreover have "listen_fds s \<union> event_fds s \<subseteq> set (os_open w')" using base(1) Db w by blast
  ultimately show ?thesis
    unfolding fds_inv_def all update_cli_sel set_map using base(2) by blast
qed

lemma server_inv_update:
  assumes inv: "server_inv k x" and id: "\<And>c. cli_id (f c) = cli_id c"
    and f: "\<And>c. c \<in> set (all_clis (srv x)) \<Longrightarrow> cli_id c = i \<Longrightarrow> change_ok c (f c)"
    and w: "set (os_open (wos x)) - D \<subseteq> set (os_open w')"
    and D: "D \<noteq> {} \<Longrightarrow> \<exists>c \<in> set (all_clis (srv x)). cli_id c = i \<and> D \<subseteq> cli_fds c \<and> D \<inter> cli_fds (f c) = {}"
  shows "server_inv k ((upd_cli i f x)\<lparr>wos := w'\<rparr>)"
proof -
  from inv have c: "clients_inv (srv x)" and fd: "fds_inv (srv x) (wos x)" by (simp_all add: server_inv_def)
  have "clients_inv (update_cli i f (srv x))" by (rule clients_inv_update [OF c id f])
  moreover have "fds_inv (update_cli i f (srv x)) w'" by (rule fds_inv_update [OF fd c f w D])
  ultimately show ?thesis using inv unfolding server_inv_def by simp
qed

lemma server_inv_upd_cli:
  assumes "server_inv k x" "\<And>c. cli_id (f c) = cli_id c"
    "\<And>c. c \<in> set (all_clis (srv x)) \<Longrightarrow> cli_id c = i \<Longrightarrow> change_ok c (f c)"
  shows "server_inv k (upd_cli i f x)"
proof -
  have "server_inv k ((upd_cli i f x)\<lparr>wos := wos x\<rparr>)"
    by (rule server_inv_update [where D = "{}", OF assms]) simp_all
  moreover have "(upd_cli i f x)\<lparr>wos := wos x\<rparr> = upd_cli i f x" by (simp add: upd_cli_def)
  ultimately show ?thesis by simp
qed

section \<open>Sending keeps the invariant\<close>

lemma server_inv_transport:
  assumes inv: "server_inv k x" and cli: "ssn_server_cli_find (srv x) i = Some cli"
    and t: "fds t \<subseteq> fds (cli_transport cli)"
    and w: "set (os_open (wos x)) - (fds (cli_transport cli) - fds t) \<subseteq> set (os_open w)"
  shows "server_inv k ((upd_cli i (\<lambda>c. c\<lparr>cli_transport := t\<rparr>) x)\<lparr>wos := w\<rparr>)"
proof -
  have cinv: "clients_inv (srv x)" using inv by (simp add: server_inv_def)
  have c: "cli \<in> set (all_clis (srv x))" "cli_id cli = i" using cli find_cli(1) [OF cinv] by auto
  show ?thesis
  proof (rule server_inv_update [OF inv _ _ w])
    fix d
    assume d: "d \<in> set (all_clis (srv x))" "cli_id d = i"
    then have "d = cli" using clients_invD(3) [OF cinv] c by metis
    with t clients_invD(2) [OF cinv d(1)] show "change_ok d (d\<lparr>cli_transport := t\<rparr>)"
      by (simp add: change_ok_def cli_ok_def)
  qed (use c in auto)
qed

lemma sendmsg_result:
  assumes ok: "syscalls_ok sc" and cli: "ssn_server_cli_find (srv x) i = Some cli"
    and r: "ssn_server_cli_sendmsg sc i url data x = (b, x')"
  shows "\<exists>buf t w. x' = x\<lparr>srv := (update_cli i (\<lambda>c. c\<lparr>cli_transport := t\<rparr>) (srv x))\<lparr>sendbuf := buf\<rparr>, wos := w\<rparr> \<and>
    fds t = (if b then fds (cli_transport cli) else {}) \<and>
    set (os_open w) = (if b then set (os_open (wos x)) else set (os_open (wos x)) - fds (cli_transport cli))"
proof -
  obtain b1 buf t w where s: "ssn_send_message sc (cli_transport cli) (sendbuf (srv x)) url data (wos x) = (b1, buf, t, w)"
    by (metis prod_cases4)
  have f: "fds t = fds (cli_transport cli)" "os_open w = os_open (wos x)"
    using send_message_frame [OF ok s] by (simp_all add: send_frame_def fds_def)
  obtain b2 t2 w2 where d: "ssn_transport_disconnect t w = (b2, t2, w2)" by (metis prod_cases3)
  have f2: "set (os_open w2) = set (os_open w) - fds t" "fds t2 = {}" using tr.disconnect_fds [OF d] by simp_all
  have x': "b = b1" "x' = x\<lparr>srv := (update_cli i (\<lambda>c. c\<lparr>cli_transport := if b1 then t else t2\<rparr>) (srv x))\<lparr>sendbuf := buf\<rparr>,
      wos := if b1 then w else w2\<rparr>"
    using r by (simp_all add: ssn_server_cli_sendmsg_def cli s d split: if_splits)
  show ?thesis
    by (intro exI [of _ buf] exI [of _ "if b1 then t else t2"] exI [of _ "if b1 then w else w2"])
      (use x' f f2 in simp)
qed

lemma sendmsg_inv:
  assumes ok: "syscalls_ok sc" and inv: "server_inv k x"
    and r: "ssn_server_cli_sendmsg sc i url data x = (b, x')"
  shows "server_inv k x'"
proof (cases "ssn_server_cli_find (srv x) i")
  case None
  with r inv show ?thesis by (simp add: ssn_server_cli_sendmsg_def)
next
  case (Some cli)
  from sendmsg_result [OF ok Some r] obtain buf t w where
    x': "x' = x\<lparr>srv := (update_cli i (\<lambda>c. c\<lparr>cli_transport := t\<rparr>) (srv x))\<lparr>sendbuf := buf\<rparr>, wos := w\<rparr>"
    and t: "fds t = (if b then fds (cli_transport cli) else {})"
    and w: "set (os_open w) = (if b then set (os_open (wos x)) else set (os_open (wos x)) - fds (cli_transport cli))"
    by blast
  have "server_inv k ((upd_cli i (\<lambda>c. c\<lparr>cli_transport := t\<rparr>) x)\<lparr>wos := w\<rparr>)"
    by (rule server_inv_transport [OF inv Some]) (use t w in auto)
  then show ?thesis by (rule server_inv_frame) (simp_all add: x')
qed

lemma create_header_inv: "server_inv k x \<Longrightarrow> server_inv k (create_header ty st sn x)"
  by (erule server_inv_frame) (simp_all add: create_header_def)

lemma reply_inv: "syscalls_ok sc \<Longrightarrow> server_inv k x \<Longrightarrow> reply sc i ty st sn d x = (b, x') \<Longrightarrow> server_inv k x'"
  unfolding reply_def by (blast intro: sendmsg_inv create_header_inv)

lemma publish_to_inv: "syscalls_ok sc \<Longrightarrow> server_inv k x \<Longrightarrow> server_inv k (publish_to sc url data i x)"
  by (auto simp: publish_to_def split: option.split intro: sendmsg_inv [OF _ _ prod.collapse [symmetric]])

lemma fold_inv: "P x \<Longrightarrow> (\<And>y x. P x \<Longrightarrow> P (f y x)) \<Longrightarrow> P (fold f ys x)"
  by (induction ys arbitrary: x) auto

lemma publish_inv:
  "syscalls_ok sc \<Longrightarrow> server_inv k x \<Longrightarrow> server_inv k (snd (ssn_server_publish sc url data x))"
  by (simp add: ssn_server_publish_def ssn_server_do_publish_def fold_inv publish_to_inv create_header_inv)

lemma response_inv:
  "syscalls_ok sc \<Longrightarrow> server_inv k x \<Longrightarrow> server_inv k (snd (ssn_server_response sc i st sn data x))"
  by (auto simp: ssn_server_response_def split: option.split intro: reply_inv [OF _ _ prod.collapse [symmetric]])

lemma message_inv:
  "syscalls_ok sc \<Longrightarrow> server_inv k x \<Longrightarrow> server_inv k (snd (ssn_server_message sc i url data x))"
  by (auto simp: ssn_server_message_def ssn_server_cli_do_message_def split: option.split
      intro: sendmsg_inv [OF _ _ prod.collapse [symmetric]] create_header_inv)

lemma peer_close_inv:
  assumes inv: "server_inv k x"
  shows "server_inv k (snd (ssn_server_peer_close i x))"
proof (cases "valid (srv x) \<and> ssn_server_cli_find (srv x) i \<noteq> None")
  case True
  then obtain cli where c: "ssn_server_cli_find (srv x) i = Some cli" by auto
  obtain b t w where d: "ssn_transport_disconnect (cli_transport cli) (wos x) = (b, t, w)" by (metis prod_cases3)
  have f: "set (os_open w) = set (os_open (wos x)) - fds (cli_transport cli)" "fds t = {}"
    using tr.disconnect_fds [OF d] by simp_all
  have "server_inv k ((upd_cli i (\<lambda>c. c\<lparr>cli_transport := t\<rparr>) x)\<lparr>wos := w\<rparr>)"
    by (rule server_inv_transport [OF inv c]) (use f in auto)
  then show ?thesis using True c d by (simp add: ssn_server_peer_close_def upd_cli_def)
next
  case False
  then have "snd (ssn_server_peer_close i x) = x" by (auto simp: ssn_server_peer_close_def)
  with inv show ?thesis by simp
qed

end
