(* ===== verification/Ssn_Server_Keeps.thy ===== *)
theory Ssn_Server_Keeps
  imports Ssn_Server_Inv
begin

text \<open>
  Every operation of the server keeps its invariant: clients that leave and enter, the destruction
  with its reference count, the public functions (\<open>api_step\<close>), through which the handlers of
  the application act (\<open>env_ok\<close>), and the packet handlers, which meet the contract of the stream
  parser.
\<close>

section \<open>Clients leave and enter\<close>

lemma destroy_sel:
  assumes "ssn_server_cli_destroy i (s, w) = (s', w')"
  shows "max_connections s' = max_connections s" "sv_transport s' = sv_transport s" "evt_fd s' = evt_fd s"
    "freed s' = freed s" "ref_count s' = ref_count s" "valid s' = valid s"
    "listen_fds s' = listen_fds s" "event_fds s' = event_fds s"
  using assms by (auto simp: ssn_server_cli_destroy_def listen_fds_def event_fds_def split: option.splits)

lemma destroy_effect:
  assumes inv: "clients_inv s" and d: "ssn_server_cli_destroy i (s, w) = (s', w')"
  shows "clients_inv s'" "all_clis s' = filter (\<lambda>c. cli_id c \<noteq> i) (all_clis s)"
    "set (hst_h s') = set (hst_h s) - {i}"
    "set (os_open w') = set (os_open w) - \<Union> (cli_fds ` {c \<in> set (all_clis s). cli_id c = i})"
proof -
  note r = destroy_refines [OF clients_invD(1) [OF inv] d]
  show all: "all_clis s' = filter (\<lambda>c. cli_id c \<noteq> i) (all_clis s)" using r by simp
  have h: "set (hst_h s) = set (map cli_id (filter hst_linked (all_clis s)))" "distinct (hst_h s)"
    and ids: "distinct (map cli_id (all_clis s))" using inv by (simp_all add: clients_inv_def)
  have hst: "set (hst_h s') = set (hst_h s) - {i} \<and> distinct (hst_h s') \<and>
      set (os_open w') = set (os_open w) - \<Union> (cli_fds ` {c \<in> set (all_clis s). cli_id c = i})"
  proof (cases "ssn_server_cli_find s i")
    case None
    then have "i \<notin> cli_id ` set (all_clis s)" using find_cli(2) [OF inv] by blast
    then have "i \<notin> set (hst_h s)" "{c \<in> set (all_clis s). cli_id c = i} = {}" using h(1) by auto
    with None d h show ?thesis by (auto simp: ssn_server_cli_destroy_def)
  next
    case (Some c)
    then have c: "c \<in> set (all_clis s)" "cli_id c = i" using find_cli(1) [OF inv] by auto
    have "{c \<in> set (all_clis s). cli_id c = i} = {c}" using c clients_invD(3) [OF inv] by auto
    moreover have "\<not> hst_linked c \<Longrightarrow> i \<notin> set (hst_h s)" using h(1) c clients_invD(3) [OF inv] by auto
    moreover have "set (os_open (ssn_transport_destroy (cli_transport c) w)) = set (os_open w) - cli_fds c"
      by (rule tr.destroy_fds)
    ultimately show ?thesis using Some d h(2)
      by (cases "hst_linked c") (auto simp: ssn_server_cli_destroy_def)
  qed
  then show "set (hst_h s') = set (hst_h s) - {i}"
    "set (os_open w') = set (os_open w) - \<Union> (cli_fds ` {c \<in> set (all_clis s). cli_id c = i})" by simp_all
  have "distinct (map cli_id (filter (\<lambda>c. cli_id c \<noteq> i) (all_clis s)))" using ids by (rule distinct_map_filter)
  moreover have "set (hst_h s) - {i} = set (map cli_id (filter hst_linked (filter (\<lambda>c. cli_id c \<noteq> i) (all_clis s))))"
    using h(1) by auto
  moreover have "length (filter (\<lambda>c. cli_id c \<noteq> i) (all_clis s)) \<le> unat (max_connections s)"
    using inv length_filter_le le_trans unfolding clients_inv_def by blast
  ultimately show "clients_inv s'"
    using r hst inv destroy_sel(1) [OF d] unfolding clients_inv_def all by simp
qed

lemma destroy_cli_inv:
  assumes inv: "server_inv k x"
  shows "server_inv k (destroy_cli i x)"
proof -
  obtain s' w' where d: "ssn_server_cli_destroy i (srv x, wos x) = (s', w')" by fastforce
  have c: "clients_inv (srv x)" and f: "fds_inv (srv x) (wos x)" using inv by (simp_all add: server_inv_def)
  note e = destroy_effect [OF c d]
  let ?D = "\<Union> (cli_fds ` {c \<in> set (all_clis (srv x)). cli_id c = i})"
  have "listen_fds s' \<union> event_fds s' \<subseteq> set (os_open w')"
    using f unfolding e(4) destroy_sel(7,8) [OF d] fds_inv_def by blast
  moreover have "cli_fds c \<subseteq> set (os_open w') - (listen_fds s' \<union> event_fds s')" if "c \<in> set (all_clis s')" for c
    using f that unfolding e(2,4) destroy_sel(7,8) [OF d] fds_inv_def by fastforce
  ultimately have "fds_inv s' w'"
    using f unfolding fds_inv_def e(2) destroy_sel(7,8) [OF d] by simp
  with e(1) inv d destroy_sel [OF d] show ?thesis by (simp add: destroy_cli_def server_inv_def)
qed

text \<open>The descriptors are invariant under changes that keep ids and descriptors.\<close>

lemma fds_inv_ids:
  assumes "map (\<lambda>c. (cli_id c, cli_fds c)) (all_clis s') = map (\<lambda>c. (cli_id c, cli_fds c)) (all_clis s)"
    "listen_fds s' = listen_fds s" "event_fds s' = event_fds s"
  shows "fds_inv s' w = fds_inv s w"
proof -
  have r: "fds_inv s w \<longleftrightarrow> listen_fds s \<union> event_fds s \<subseteq> set (os_open w) \<and> listen_fds s \<inter> event_fds s = {} \<and>
     (\<forall>p \<in> set (map (\<lambda>c. (cli_id c, cli_fds c)) (all_clis s)). snd p \<subseteq> set (os_open w) - (listen_fds s \<union> event_fds s)) \<and>
     (\<forall>p \<in> set (map (\<lambda>c. (cli_id c, cli_fds c)) (all_clis s)). \<forall>q \<in> set (map (\<lambda>c. (cli_id c, cli_fds c)) (all_clis s)).
        fst p \<noteq> fst q \<longrightarrow> snd p \<inter> snd q = {})" for s
    by (simp add: fds_inv_def)
  show ?thesis unfolding r [of s] r [of s'] assms ..
qed

text \<open>A client is taken out of the timer list and its structure says so.\<close>

lemma unlink_inv:
  assumes inv: "server_inv k x" and id: "\<And>c. cli_id (f c) = cli_id c"
    and f: "\<And>c. c \<in> set (all_clis (srv x)) \<Longrightarrow> cli_id c = i \<Longrightarrow> \<not> hst_linked (f c) \<and> cli_ok (f c) \<and> cli_fds (f c) \<subseteq> cli_fds c"
    and w: "set (os_open (wos x)) - D \<subseteq> set (os_open w')"
    and D: "D \<noteq> {} \<Longrightarrow> \<exists>c \<in> set (all_clis (srv x)). cli_id c = i \<and> D \<subseteq> cli_fds c \<and> D \<inter> cli_fds (f c) = {}"
  shows "server_inv k (unlink_hst i ((upd_cli i f x)\<lparr>wos := w'\<rparr>))"
proof -
  let ?g = "\<lambda>c. (f c)\<lparr>hst_linked := hst_linked c\<rparr>"
  have c: "clients_inv (srv x)" using inv by (simp add: server_inv_def)
  note tab = clients_invD(1) [OF c]
  have g: "change_ok c (?g c)" if "c \<in> set (all_clis (srv x))" "cli_id c = i" for c
    using f [OF that] id by (simp add: change_ok_def cli_ok_def)
  have g_inv: "server_inv k ((upd_cli i ?g x)\<lparr>wos := w'\<rparr>)"
    by (rule server_inv_update [OF inv _ g w]) (use D id in auto)
  let ?s = "update_cli i f (srv x)" and ?t = "update_cli i ?g (srv x)"
  have all: "all_clis ?s = map (\<lambda>c. if cli_id c = i then f c else c) (all_clis (srv x))"
    "all_clis ?t = map (\<lambda>c. if cli_id c = i then ?g c else c) (all_clis (srv x))"
    by (rule update_refines [OF tab])+
  have fds: "fds_inv ?s w' = fds_inv ?t w'"
    by (rule fds_inv_ids) (simp_all add: all id)
  have ids: "map cli_id (all_clis ?s) = map cli_id (all_clis (srv x))"
    "map cli_id (all_clis ?t) = map cli_id (all_clis (srv x))"
    unfolding all by (auto simp: id)
  have tinv: "clients_inv ?t" using g_inv by (simp add: server_inv_def)
  have h: "set (hst_h (srv x)) = set (map cli_id (filter hst_linked (all_clis (srv x))))" "distinct (hst_h (srv x))"
    using c by (simp_all add: clients_inv_def)
  have linked: "set (hst_h (srv x)) - {i} = set (map cli_id (filter hst_linked (all_clis ?s)))"
    unfolding h(1) all using f id by (auto simp: image_iff)
  have ok: "\<forall>c \<in> set (all_clis ?s). cli_ok c"
    unfolding all using f clients_invD(2) [OF c] by auto
  have len: "length (all_clis ?s) \<le> unat (max_connections (srv x))"
    using c unfolding all by (simp add: clients_inv_def)
  have "clients_inv (?s\<lparr>hst_h := remove1 i (hst_h (srv x))\<rparr>)"
    using update_table_ok [OF tab id] ids(1) c h(2) linked ok len
    unfolding clients_inv_def table_ok_def all_clis_def by simp
  moreover have "fds_inv (?s\<lparr>hst_h := remove1 i (hst_h (srv x))\<rparr>) w'"
    using g_inv fds fds_inv_cong [of "?s\<lparr>hst_h := remove1 i (hst_h (srv x))\<rparr>" ?s w']
    by (simp add: server_inv_def)
  ultimately show ?thesis using inv by (simp add: server_inv_def unlink_hst_def)
qed

text \<open>A new client.\<close>

lemma init_inv:
  assumes inv: "server_inv k x" and cli: "cli_ok cli" "cli_fds cli \<subseteq> set (os_open w)"
    "cli_fds cli \<inter> set (os_open (wos x)) = {}"
    and w: "set (os_open (wos x)) \<subseteq> set (os_open w)"
    and lt: "length (all_clis (srv x)) < unat (max_connections (srv x))"
  shows "\<exists>s'. ssn_server_cli_init cli (srv x) = Some s' \<and> server_inv k (x\<lparr>srv := s', wos := w\<rparr>)"
proof -
  let ?s = "srv x"
  have c: "clients_inv ?s" and f: "fds_inv ?s (wos x)" using inv by (simp_all add: server_inv_def)
  have "unat (max_connections ?s) < 2 ^ 32" by (rule order_less_le_trans [OF unsigned_less]) simp
  with lt have "length (all_clis ?s) < 2 ^ 32" by linarith
  from init_refines [OF clients_invD(1) [OF c] this, of cli] obtain i n s' xs ys where
    s': "ssn_server_cli_init cli ?s = Some s'" and i: "i \<notin> cli_id ` set (all_clis ?s)"
    and app: "all_clis ?s = xs @ ys" and tab: "table_ok s'"
    and eq: "s' = ?s\<lparr>ncid := n, clis := clis s', hst_h := i # hst_h ?s\<rparr>"
    and all: "all_clis s' = xs @ cli\<lparr>cli_id := i, hst_alive := handshake_timeout ?s, hst_linked := True\<rparr> # ys"
    by blast
  let ?c = "cli\<lparr>cli_id := i, hst_alive := handshake_timeout ?s, hst_linked := True\<rparr>"
  have sel: "hst_h s' = i # hst_h ?s" "max_connections s' = max_connections ?s" "ref_count s' = ref_count ?s"
    "valid s' = valid ?s" "freed s' = freed ?s" "listen_fds s' = listen_fds ?s" "event_fds s' = event_fds ?s"
    by (subst eq, simp add: listen_fds_def event_fds_def)+
  have set: "set (all_clis s') = insert ?c (set (all_clis ?s))" unfolding all app by auto
  have "i \<notin> set (hst_h ?s)" using i c by (auto simp: clients_inv_def)
  moreover have "set (map cli_id (filter hst_linked (all_clis s'))) = insert i (set (map cli_id (filter hst_linked (all_clis ?s))))"
    unfolding all app by auto
  moreover have "distinct (map cli_id (all_clis s'))" using c i unfolding all app clients_inv_def by auto
  moreover have "length (all_clis s') \<le> unat (max_connections s')" using lt unfolding all app sel by simp
  ultimately have "clients_inv s'"
    using c cli(1) tab unfolding clients_inv_def sel set by (simp add: cli_ok_def)
  moreover have "fds_inv s' w"
  proof -
    have "cli_fds ?c \<inter> cli_fds d = {}" if "d \<in> set (all_clis ?s)" for d
      using f that cli(3) by (fastforce simp: fds_inv_def)
    moreover have "listen_fds ?s \<union> event_fds ?s \<subseteq> set (os_open (wos x))" using f by (simp add: fds_inv_def)
    ultimately show ?thesis
      using f cli(2,3) w unfolding fds_inv_def set sel by simp blast
  qed
  ultimately show ?thesis using s' inv by (simp add: server_inv_def sel)
qed

section \<open>Destruction of the server\<close>

lemma fold_destroy_all:
  "clients_inv s \<Longrightarrow> fold ssn_server_cli_destroy is (s, w) = (s', w') \<Longrightarrow>
   clients_inv s' \<and> all_clis s' = filter (\<lambda>c. cli_id c \<notin> set is) (all_clis s) \<and>
   set (os_open w') = set (os_open w) - \<Union> (cli_fds ` {c \<in> set (all_clis s). cli_id c \<in> set is}) \<and>
   ref_count s' = ref_count s \<and> valid s' = valid s \<and> freed s' = freed s \<and> sv_transport s' = sv_transport s"
proof (induction "is" arbitrary: s w)
  case (Cons i "is")
  obtain s1 w1 where d: "ssn_server_cli_destroy i (s, w) = (s1, w1)" by fastforce
  note e = destroy_effect [OF Cons.prems(1) d]
  have "fold ssn_server_cli_destroy is (s1, w1) = (s', w')" using Cons.prems(2) d by simp
  note ih = Cons.IH [OF e(1) this]
  have "all_clis s' = filter (\<lambda>c. cli_id c \<notin> set (i # is)) (all_clis s)"
    using ih e(2) by (auto intro: filter_cong)
  moreover have "set (os_open w') = set (os_open w) - \<Union> (cli_fds ` {c \<in> set (all_clis s). cli_id c \<in> set (i # is)})"
    using ih e(2,4) by auto
  ultimately show ?case using ih destroy_sel [OF d] by simp
qed simp

lemma fold_destroy:
  assumes "clients_inv s" "fold ssn_server_cli_destroy is (s, w) = (s', w')"
  shows "clients_inv s'" "all_clis s' = filter (\<lambda>c. cli_id c \<notin> set is) (all_clis s)"
    "set (os_open w') = set (os_open w) - \<Union> (cli_fds ` {c \<in> set (all_clis s). cli_id c \<in> set is})"
    "ref_count s' = ref_count s" "valid s' = valid s" "freed s' = freed s" "sv_transport s' = sv_transport s"
  using fold_destroy_all [OF assms] by blast+

text \<open>All descriptors of the server.\<close>

definition owned_fds :: "ssn_server \<Rightarrow> int set" where
  "owned_fds s = listen_fds s \<union> event_fds s \<union> \<Union> (cli_fds ` set (all_clis s))"

lemma free_resources_effect:
  assumes inv: "clients_inv (srv x)" and nf: "\<not> freed (srv x)"
  shows "clients_inv (srv (ssn_server_free_resources x))" "all_clis (srv (ssn_server_free_resources x)) = []"
    "owned_fds (srv (ssn_server_free_resources x)) = {}" "freed (srv (ssn_server_free_resources x))"
    "set (os_open (wos (ssn_server_free_resources x))) = set (os_open (wos x)) - owned_fds (srv x)"
    "ref_count (srv (ssn_server_free_resources x)) = ref_count (srv x)"
    "valid (srv (ssn_server_free_resources x)) = valid (srv x)"
proof -
  define w1 where "w1 = (case sv_transport (srv x) of None \<Rightarrow> wos x | Some t \<Rightarrow> ssn_transport_destroy t (wos x))"
  define w2 where "w2 = ipc_event_pair_destroy (evt_fd (srv x)) w1"
  define s0 where "s0 = (srv x)\<lparr>sv_transport := None\<rparr>"
  obtain s1 w3 where f: "fold ssn_server_cli_destroy (map cli_id (all_clis s0)) (s0, w2) = (s1, w3)" by fastforce
  have o: "set (os_open w2) = set (os_open (wos x)) - (listen_fds (srv x) \<union> event_fds (srv x))"
    using nf by (auto simp: w1_def w2_def listen_fds_def event_fds_def ipc_event_pair_destroy_def os_close_def
        tr.destroy_fds split: option.splits)
  have s0: "clients_inv s0" "all_clis s0 = all_clis (srv x)"
    using inv clients_inv_cong [of s0 "srv x"] by (simp_all add: s0_def all_clis_def)
  note e = fold_destroy [OF s0(1) f]
  have r: "ssn_server_free_resources x =
      x\<lparr>srv := s1\<lparr>cmds := replicate IPC_CMD_HASH_SIZE [], prefix_h := [], def_cmd := None, freed := True\<rparr>,
        wos := os_unlink (srv_name s1) w3\<rparr>"
    using f by (simp add: ssn_server_free_resources_def s0_def w1_def w2_def Let_def)
  have all: "all_clis s1 = []" unfolding e(2) by simp
  show "all_clis (srv (ssn_server_free_resources x)) = []" using all by (simp add: r all_clis_def)
  show "clients_inv (srv (ssn_server_free_resources x))"
    unfolding r using e(1) by (simp add: clients_inv_def table_ok_def all_clis_def)
  show "owned_fds (srv (ssn_server_free_resources x)) = {}"
    using all e(7) by (auto simp: r owned_fds_def listen_fds_def event_fds_def all_clis_def s0_def)
  have "set (os_open w3) = set (os_open w2) - \<Union> (cli_fds ` set (all_clis (srv x)))"
    unfolding e(3) s0(2) by auto
  then show "set (os_open (wos (ssn_server_free_resources x))) = set (os_open (wos x)) - owned_fds (srv x)"
    unfolding o by (auto simp: r os_unlink_def owned_fds_def)
  show "freed (srv (ssn_server_free_resources x))" "ref_count (srv (ssn_server_free_resources x)) = ref_count (srv x)"
    "valid (srv (ssn_server_free_resources x)) = valid (srv x)"
    using e by (simp_all add: r s0_def)
qed

lemma unref_inv:
  assumes inv: "server_inv k x" and k: "1 \<le> k \<or> (k = 0 \<and> valid (srv x))"
    and x': "x' = x\<lparr>srv := (srv x)\<lparr>valid := v, listed := l, msg_recv := m, pubsub_pub := p, rpc_rep := r\<rparr>\<rparr>"
    and k': "k' = k + of_bool (valid (srv x)) - 1 - of_bool v" "0 \<le> k'"
  shows "server_inv k' (ssn_server_unref x')"
proof -
  have c: "clients_inv (srv x)" and rc: "ref_count (srv x) = k + of_bool (valid (srv x))"
    and nf: "\<not> freed (srv x)" using inv k by (auto simp: server_inv_def)
  define y where "y = x'\<lparr>srv := (srv x')\<lparr>ref_count := ref_count (srv x') - 1\<rparr>\<rparr>"
  have y: "clients_inv (srv y)" "fds_inv (srv y) (wos y)" "\<not> freed (srv y)" "valid (srv y) = v"
    "ref_count (srv y) = k' + of_bool v"
    using inv nf rc k' clients_inv_cong [of "srv y" "srv x"] fds_inv_cong [of "srv y" "srv x" "wos y"]
    by (simp_all add: y_def x' server_inv_def)
  have u: "ssn_server_unref x' = (if ref_count (srv y) = 0 \<and> \<not> v then ssn_server_free_resources y else y)"
    using rc k by (auto simp: ssn_server_unref_def y_def x' Let_def)
  show ?thesis
  proof (cases "ref_count (srv y) = 0 \<and> \<not> v")
    case True
    note e = free_resources_effect [OF y(1) y(3)]
    have "fds_inv (srv (ssn_server_free_resources y)) (wos (ssn_server_free_resources y))"
      using e(2,3) by (simp add: fds_inv_def owned_fds_def)
    with e True y u show ?thesis by (simp add: server_inv_def)
  next
    case False
    with y k' u show ?thesis by (auto simp: server_inv_def)
  qed
qed

lemma ref_inv: "server_inv k x \<Longrightarrow> valid (srv x) \<Longrightarrow> 0 \<le> k \<Longrightarrow> server_inv (k + 1) (ssn_server_ref x)"
  using clients_inv_cong [of "srv (ssn_server_ref x)" "srv x"]
    fds_inv_cong [of "srv (ssn_server_ref x)" "srv x" "wos x"]
  by (simp add: server_inv_def ssn_server_ref_def)

lemma poll_unref_inv:
  assumes "server_inv (k + 1) x" "0 \<le> k"
  shows "server_inv k (ssn_server_unref x)"
proof -
  have "x = x\<lparr>srv := (srv x)\<lparr>valid := valid (srv x), listed := listed (srv x), msg_recv := msg_recv (srv x),
      pubsub_pub := pubsub_pub (srv x), rpc_rep := rpc_rep (srv x)\<rparr>\<rparr>"
    by simp
  from unref_inv [OF assms(1) _ this, of k] assms(2) show ?thesis by simp
qed

lemma destroy_inv:
  assumes inv: "server_inv k x" and k: "0 \<le> k"
  shows "server_inv k (ssn_server_destroy x)"
proof (cases "valid (srv x)")
  case True
  have "x\<lparr>srv := (srv x)\<lparr>listed := False, valid := False, msg_recv := None, pubsub_pub := None, rpc_rep := None\<rparr>\<rparr> =
      x\<lparr>srv := (srv x)\<lparr>valid := False, listed := False, msg_recv := None, pubsub_pub := None, rpc_rep := None\<rparr>\<rparr>"
    by simp
  from unref_inv [OF inv _ this, of k] True k show ?thesis
    by (simp add: ssn_server_destroy_def) linarith
next
  case False
  with inv show ?thesis by (simp add: ssn_server_destroy_def)
qed

section \<open>What the application does\<close>

text \<open>The public functions an application may call while the server exists, and changes to its own
  state. Adding a method is allowed when it does not write through a dangling tail pointer.\<close>

inductive api_step :: "syscalls \<Rightarrow> 'u world \<Rightarrow> 'u world \<Rightarrow> bool" for sc where
  api_publish: "api_step sc x (snd (ssn_server_publish sc url data x))"
| api_response: "api_step sc x (snd (ssn_server_response sc i status seqno data x))"
| api_message: "api_step sc x (snd (ssn_server_message sc i url data x))"
| api_peer_close: "api_step sc x (snd (ssn_server_peer_close i x))"
| api_add_method: "\<not> corrupt (srv (snd (ssn_server_add_method sc url callback arg x))) \<Longrightarrow>
    api_step sc x (snd (ssn_server_add_method sc url callback arg x))"
| api_remove_method: "api_step sc x (ssn_server_remove_method url x)"
| api_connect_handler: "api_step sc x (ssn_server_set_connect_handler f arg x)"
| api_message_handler: "api_step sc x (ssn_server_set_message_handler f arg x)"
| api_destroy: "api_step sc x (ssn_server_destroy x)"
| api_user: "api_step sc x (x\<lparr>usr := u\<rparr>)"

abbreviation api_steps :: "syscalls \<Rightarrow> 'u world \<Rightarrow> 'u world \<Rightarrow> bool" where
  "api_steps sc \<equiv> (api_step sc)\<^sup>*\<^sup>*"

text \<open>Handlers act on the server through these functions.\<close>

definition env_ok :: "syscalls \<Rightarrow> 'u server_env \<Rightarrow> bool" where
  "env_ok sc env \<longleftrightarrow> (\<forall>f i p a x. api_steps sc x (rpc_fn env f i p a x)) \<and>
     (\<forall>f i u d a x. api_steps sc x (msg_fn env f i u d a x)) \<and>
     (\<forall>f i b a x. api_steps sc x (cli_fn env f i b a x))"

lemma add_method_inv:
  "server_inv k x \<Longrightarrow> server_inv k (snd (ssn_server_add_method sc url callback arg x))"
  by (erule server_inv_frame)
    (auto simp: ssn_server_add_method_def insert_prefix_def Let_def os_calloc_def split: bool.split)

lemma remove_method_inv: "server_inv k x \<Longrightarrow> server_inv k (ssn_server_remove_method url x)"
  by (erule server_inv_frame) (auto simp: ssn_server_remove_method_def Let_def)

lemma user_inv: "server_inv k x \<Longrightarrow> server_inv k (x\<lparr>usr := u\<rparr>)"
  by (erule server_inv_frame) simp_all

lemma set_handler_inv:
  "server_inv k x \<Longrightarrow> server_inv k (ssn_server_set_connect_handler f arg x)"
  "server_inv k x \<Longrightarrow> server_inv k (ssn_server_set_message_handler f arg x)"
  by (erule server_inv_frame;
      simp add: ssn_server_set_connect_handler_def ssn_server_set_message_handler_def)+

lemma api_step_inv: "api_step sc x x' \<Longrightarrow> syscalls_ok sc \<Longrightarrow> 0 \<le> k \<Longrightarrow> server_inv k x \<Longrightarrow> server_inv k x'"
  by (induction rule: api_step.induct)
    (blast intro: publish_inv response_inv message_inv peer_close_inv add_method_inv remove_method_inv
      set_handler_inv destroy_inv user_inv)+

lemma api_steps_inv:
  "api_steps sc x x' \<Longrightarrow> syscalls_ok sc \<Longrightarrow> 0 \<le> k \<Longrightarrow> server_inv k x \<Longrightarrow> server_inv k x'"
  by (induction rule: rtranclp_induct) (blast intro: api_step_inv)+

section \<open>Packets\<close>

lemma handlers_inv:
  assumes "env_ok sc env" "syscalls_ok sc" "0 \<le> k" "server_inv k x"
  shows "server_inv k (rpc_fn env f i p a x)" "server_inv k (msg_fn env f i u d a x)" "server_inv k (cli_fn env f i b a x)"
  using assms api_steps_inv [OF _ assms(2-4)] unfolding env_ok_def by blast+

lemma call_oncli_inv:
  "env_ok sc env \<Longrightarrow> syscalls_ok sc \<Longrightarrow> 0 \<le> k \<Longrightarrow> server_inv k x \<Longrightarrow> server_inv k (call_oncli env i b x)"
  by (auto simp: call_oncli_def split: option.split intro: handlers_inv)

lemma change_flags:
  assumes "server_inv k x" "c \<in> set (all_clis (srv x))"
  shows "change_ok c (c\<lparr>active := a, onconn := b, subscribed := s, hst_alive := n\<rparr>)"
  using assms clients_invD(2) by (auto simp: change_ok_def cli_ok_def server_inv_def)

lemma upd_flags_inv:
  assumes inv: "server_inv k x"
    and f: "\<And>c. f c = c\<lparr>active := a c, onconn := b c, subscribed := s c, hst_alive := n c\<rparr>"
  shows "server_inv k (upd_cli i f x)"
  by (rule server_inv_upd_cli [OF inv]) (use f change_flags [OF inv] in simp_all)

lemma upd_onconn_inv: "server_inv k x \<Longrightarrow> server_inv k (upd_cli i (\<lambda>c. c\<lparr>onconn := b\<rparr>) x)"
  by (erule upd_flags_inv [where a = active and b = "\<lambda>c. b" and s = subscribed and n = hst_alive]) simp

lemma upd_alive_inv: "server_inv k x \<Longrightarrow> server_inv k (upd_cli i (\<lambda>c. c\<lparr>hst_alive := n c\<rparr>) x)"
  by (erule upd_flags_inv [where a = active and b = onconn and s = subscribed and n = n]) simp

lemma upd_subscribed_inv: "server_inv k x \<Longrightarrow> server_inv k (upd_cli i (\<lambda>c. c\<lparr>subscribed := s c\<rparr>) x)"
  by (erule upd_flags_inv [where a = active and b = onconn and s = s and n = hst_alive]) simp

lemma touch_inv: "server_inv k x \<Longrightarrow> server_inv k (touch i x)"
  unfolding touch_def Let_def
  by (erule upd_flags_inv [where a = "\<lambda>c. True" and b = onconn and s = subscribed and n = "\<lambda>c. if keepalive_timeout (srv x) > 0 \<and> hst_alive c \<noteq> 0
      then c_int (keepalive_timeout (srv x) * 1000) else hst_alive c"]) simp

lemma unlink_only_inv:
  assumes inv: "server_inv k x"
  shows "server_inv k (unlink_hst i (upd_cli i (\<lambda>c. c\<lparr>hst_alive := 0, hst_linked := False\<rparr>) x))"
proof -
  have "clients_inv (srv x)" using inv by (simp add: server_inv_def)
  then have "server_inv k (unlink_hst i ((upd_cli i (\<lambda>c. c\<lparr>hst_alive := 0, hst_linked := False\<rparr>) x)\<lparr>wos := wos x\<rparr>))"
    by (intro unlink_inv [OF inv, where D = "{}"]) (auto simp: cli_ok_def dest: clients_invD(2))
  then show ?thesis by (simp add: upd_cli_def)
qed

lemma os_inv: "server_inv k x \<Longrightarrow> os_open w = os_open (wos x) \<Longrightarrow> server_inv k (x\<lparr>wos := w\<rparr>)"
  by (erule server_inv_frame) simp_all

lemma sendmsg_snd_inv:
  "syscalls_ok sc \<Longrightarrow> server_inv k x \<Longrightarrow> server_inv k (snd (ssn_server_cli_sendmsg sc i url data x))"
  by (rule sendmsg_inv [OF _ _ prod.collapse [symmetric]])

lemma reply_snd_inv:
  "syscalls_ok sc \<Longrightarrow> server_inv k x \<Longrightarrow> server_inv k (snd (reply sc i ty st sn d x))"
  by (rule reply_inv [OF _ _ prod.collapse [symmetric]])

lemma service_info_inv:
  assumes "env_ok sc env" "syscalls_ok sc" "0 \<le> k" "server_inv k x"
  shows "server_inv k (ssn_server_handle_service_info sc env i h sn x)"
  using assms unfolding ssn_server_handle_service_info_def Let_def
  by (auto split: option.split
      intro!: sendmsg_snd_inv upd_alive_inv unlink_only_inv create_header_inv upd_onconn_inv call_oncli_inv)

lemma rpc_request_inv:
  assumes "env_ok sc env" "syscalls_ok sc" "0 \<le> k" "server_inv k x"
  shows "server_inv k (ssn_server_handle_rpc_request sc env i p h sn url x)"
  using assms unfolding ssn_server_handle_rpc_request_def
  by (auto split: option.split intro: reply_snd_inv handlers_inv)

lemma subscribe_inv:
  assumes "syscalls_ok sc" "server_inv k x"
  shows "server_inv k (ssn_server_handle_subscribe sc i h sn url x)"
  using assms unfolding ssn_server_handle_subscribe_def Let_def os_calloc_def
  by (auto split: option.split bool.split intro!: reply_snd_inv upd_subscribed_inv os_inv)

lemma unsubscribe_inv:
  assumes "syscalls_ok sc" "server_inv k x"
  shows "server_inv k (ssn_server_handle_unsubscribe sc i h sn url x)"
  unfolding ssn_server_handle_unsubscribe_def Let_def
  by (intro reply_snd_inv assms upd_subscribed_inv)

lemma dispatch_inv:
  assumes "env_ok sc env" "syscalls_ok sc" "0 \<le> k" "server_inv k x"
  shows "server_inv k (dispatch sc env i p x)"
  using assms unfolding dispatch_def Let_def ssn_server_handle_ping_echo_def
  by (simp add: service_info_inv rpc_request_inv subscribe_inv unsubscribe_inv reply_snd_inv handlers_inv split: option.split)

text \<open>The server's packet handler meets the contract of the stream parser.\<close>

definition input_ready :: "syscalls \<Rightarrow> 'u server_env \<Rightarrow> int \<Rightarrow> 'u world \<Rightarrow> bool" where
  "input_ready sc env k x \<longleftrightarrow> env_ok sc env \<and> syscalls_ok sc \<and> 0 \<le> k \<and> server_inv k x"

interpretation server_in: packet_handler "ssn_server_input sc env i" "input_ready sc env k" for sc env i k
  by unfold_locales (auto simp: ssn_server_input_def Let_def input_ready_def intro: dispatch_inv touch_inv)

lemma feed_cli_inv:
  assumes "input_ready sc env k x" "stream_inv recv" "incomplete (pending recv)"
  shows "server_inv k (feed_cli sc env i recv bs x)"
proof -
  obtain ok recv' x' where f: "ssn_stream_feed (ssn_server_input sc env i) recv bs x = (ok, recv', x')"
    by (metis prod_cases3)
  note r = server_in.feed_inv [OF assms f]
  have inv: "server_inv k x'" using r(1) by (simp add: input_ready_def)
  have "server_inv k (upd_cli i (\<lambda>c. c\<lparr>cli_recv := recv'\<rparr>) x')"
    by (rule server_inv_upd_cli [OF inv]) (use r in \<open>auto simp: change_ok_def cli_ok_def\<close>)
  then show ?thesis by (simp add: feed_cli_def f)
qed

lemma close_cli_inv: "input_ready sc env k x \<Longrightarrow> server_inv k (close_cli env i x)"
  by (auto simp: close_cli_def Let_def input_ready_def intro!: destroy_cli_inv call_oncli_inv upd_onconn_inv)

end
