(* ===== verification/Ssn_Server_Reach.thy ===== *)
theory Ssn_Server_Reach
  imports Ssn_Server_Keeps
begin

text \<open>
  The event loop of the server and the states it reaches.

  A whole \<^verbatim>\<open>ssn_server_poll\<close> and every pass of the timer thread keep the invariant; the reachable
  states are those that the application, the timer thread and the polling loop produce from a newly
  created server, in any order.
\<close>

section \<open>The event loop\<close>

lemma client_input_inv:
  assumes rdy: "input_ready sc env k x"
  shows "server_inv k (ssn_server_handle_client_input sc env rfds i x)"
proof (cases "ssn_server_cli_find (srv x) i")
  case None
  with rdy show ?thesis by (simp add: ssn_server_handle_client_input_def input_ready_def)
next
  case (Some cli)
  have inv: "server_inv k x" using rdy by (simp add: input_ready_def)
  have c: "cli_ok cli" using inv Some find_cli(1) clients_invD(2) by (fastforce simp: server_inv_def)
  obtain num bs t w where r: "ssn_transport_recv sc (cli_transport cli) SSN_MAX_PACKET_SIZE 0 (wos x) = (num, bs, t, w)"
    by (metis prod_cases4)
  define y where "y = (upd_cli i (\<lambda>c. c\<lparr>cli_transport := t\<rparr>) x)\<lparr>wos := w\<rparr>"
  have k: "fds t = fds (cli_transport cli)" "os_open w = os_open (wos x)"
    using recv_keeps [OF r] by (simp_all add: fds_def same_io_def)
  have "server_inv k y" unfolding y_def by (rule server_inv_transport [OF inv Some]) (use k in auto)
  with rdy have y: "input_ready sc env k y" by (simp add: input_ready_def)
  note fed = feed_cli_inv [OF y, of "cli_recv cli"] and cls = close_cli_inv [OF y]
  show ?thesis
    unfolding ssn_server_handle_client_input_def Some option.case Let_def r prod.case y_def [symmetric]
    using c fed cls inv \<open>server_inv k y\<close> by (simp add: cli_ok_def)
qed

lemma input_bucket_inv:
  "input_ready sc env k x \<Longrightarrow> input_ready sc env k (input_bucket sc env rfds h x)"
  unfolding input_bucket_def by (rule fold_inv) (auto simp: input_ready_def intro: client_input_inv)

lemma new_cli_ok: "cli_ok (new_cli t)" "cli_fds (new_cli t) = fds t"
  by (simp_all add: new_cli_def cli_ok_def stream_inv_def ssn_stream_init_def pending_def mem_slice_def)

lemma fds_inv_mono: "fds_inv s w \<Longrightarrow> set (os_open w) \<subseteq> set (os_open w') \<Longrightarrow> fds_inv s w'"
  unfolding fds_inv_def by blast

text \<open>The 32-bit count of the clients is exact, so the comparison with the maximum is.\<close>

lemma below_limit:
  assumes "clients_inv s" "\<not> (of_nat (length (all_clis s)) :: u32) \<ge> max_connections s"
  shows "length (all_clis s) < unat (max_connections s)"
proof -
  have "length (all_clis s) \<le> unat (max_connections s)" using assms(1) by (simp add: clients_inv_def)
  also have "\<dots> < 2 ^ 32" by (rule order_less_le_trans [OF unsigned_less]) simp
  finally have "unat (of_nat (length (all_clis s)) :: u32) = length (all_clis s)"
    by (simp add: unsigned_of_nat take_bit_nat_eq_self_iff)
  moreover have "unat (of_nat (length (all_clis s)) :: u32) < unat (max_connections s)"
    using assms(2) unfolding word_le_nat_alt by simp
  ultimately show ?thesis by simp
qed

lemma new_connection_inv:
  assumes ok: "syscalls_ok sc" and inv: "server_inv k x"
  shows "\<exists>x'. ssn_server_handle_new_connection sc res junk rfds x = Some x' \<and> server_inv k x'"
proof (cases "ssn_transport_get_fd (sv_transport (srv x)) \<ge> 0 \<and> ssn_transport_get_fd (sv_transport (srv x)) \<in> set rfds")
  case False
  with inv show ?thesis by (auto simp: ssn_server_handle_new_connection_def Let_def)
next
  case True
  obtain r g w where a: "ssn_transport_accept sc res junk (the (sv_transport (srv x))) 0 (fac x) (wos x) = (r, g, w)"
    by (metis prod_cases3)
  note acc = accept_result [OF ok a]
  have fac: "server_inv k (x\<lparr>fac := g, wos := w'\<rparr>)" if "set (os_open (wos x)) \<subseteq> set (os_open w')" for w'
    using inv that by (auto simp: server_inv_def intro: fds_inv_mono)
  show ?thesis
  proof (cases r)
    case None
    with acc have "set (os_open (wos x)) \<subseteq> set (os_open w)" by simp
    from fac [OF this] show ?thesis
      unfolding ssn_server_handle_new_connection_def Let_def a None using True by simp
  next
    case (Some p)
    obtain t ad where p: "p = (t, ad)" by fastforce
    have o: "set (os_open w) = set (os_open (wos x)) \<union> fds t" "fds t \<inter> set (os_open (wos x)) = {}"
      using acc by (simp_all add: Some p)
    have gone: "server_inv k (x\<lparr>fac := g, wos := ssn_transport_destroy t w'\<rparr>)" if "os_open w' = os_open w" for w'
      by (rule fac) (use o that in \<open>auto simp: tr.destroy_fds\<close>)
    obtain b w2 where cal: "os_calloc sc w = (b, w2)" by fastforce
    have w2: "os_open w2 = os_open w" using os_calloc_same_io [OF cal] by (simp add: same_io_def)
    have unf: "ssn_server_handle_new_connection sc res junk rfds x =
        (if (of_nat (length (all_clis (srv x))) :: u32) \<ge> max_connections (srv x)
         then Some (x\<lparr>fac := g, wos := ssn_transport_destroy t w\<rparr>)
         else if b then map_option (\<lambda>s. x\<lparr>fac := g, srv := s, wos := w2\<rparr>) (ssn_server_cli_init (new_cli t) (srv x))
         else Some (x\<lparr>fac := g, wos := ssn_transport_destroy t w2\<rparr>))"
      unfolding ssn_server_handle_new_connection_def Let_def a Some p prod.case option.case cal using True by (cases b) simp_all
    show ?thesis
    proof (cases "(of_nat (length (all_clis (srv x))) :: u32) \<ge> max_connections (srv x) \<or> \<not> b")
      case True
      then show ?thesis unfolding unf using gone [of w] gone [OF w2] by auto
    next
      case False
      have lt: "length (all_clis (srv x)) < unat (max_connections (srv x))"
        using inv False by (intro below_limit) (auto simp: server_inv_def)
      have "\<exists>s'. ssn_server_cli_init (new_cli t) (srv (x\<lparr>fac := g\<rparr>)) = Some s' \<and> server_inv k (x\<lparr>fac := g, srv := s', wos := w2\<rparr>)"
      proof (rule init_inv)
        show "server_inv k (x\<lparr>fac := g\<rparr>)" using inv by (simp add: server_inv_def)
      qed (use new_cli_ok o w2 lt in auto)
      with False show ?thesis unfolding unf by auto
    qed
  qed
qed

lemma expire_cli_inv:
  assumes inv: "server_inv k x"
  shows "server_inv k (expire_cli i x)"
proof (cases "ssn_server_cli_find (srv x) i")
  case (Some cli)
  have c: "clients_inv (srv x)" using inv by (simp add: server_inv_def)
  have cli: "cli \<in> set (all_clis (srv x))" "cli_id cli = i" using Some find_cli(1) [OF c] by auto
  obtain b t w where d: "ssn_transport_disconnect (cli_transport cli) (wos x) = (b, t, w)" by (metis prod_cases3)
  have o: "set (os_open w) = set (os_open (wos x)) - cli_fds cli" "fds t = {}" using tr.disconnect_fds [OF d] by simp_all
  have "server_inv k (unlink_hst i ((upd_cli i (\<lambda>c. c\<lparr>hst_linked := False, cli_transport := t\<rparr>) x)\<lparr>wos := w\<rparr>))"
  proof (rule unlink_inv [OF inv, where D = "cli_fds cli"])
    fix c
    assume "c \<in> set (all_clis (srv x))" "cli_id c = i"
    then show "\<not> hst_linked (c\<lparr>hst_linked := False, cli_transport := t\<rparr>) \<and> cli_ok (c\<lparr>hst_linked := False, cli_transport := t\<rparr>) \<and>
        cli_fds (c\<lparr>hst_linked := False, cli_transport := t\<rparr>) \<subseteq> cli_fds c"
      using o(2) clients_invD(2) [OF c] by (simp add: cli_ok_def)
  qed (use o cli in auto)
  from destroy_cli_inv [OF this] inv Some d show ?thesis by (simp add: expire_cli_def)
qed (use inv in \<open>simp add: expire_cli_def\<close>)

lemma event_input_inv:
  assumes inv: "server_inv k x"
  shows "server_inv k (ssn_server_handle_event_input rfds x)"
proof -
  have "server_inv k (x\<lparr>srv := (srv x)\<lparr>evt_count := n\<rparr>\<rparr>)" for n
    using inv by (rule server_inv_frame) simp_all
  then have "server_inv k (fold expire_cli is (x\<lparr>srv := (srv x)\<lparr>evt_count := n\<rparr>\<rparr>))" for "is" n
    by (rule fold_inv) (rule expire_cli_inv)
  with inv show ?thesis unfolding ssn_server_handle_event_input_def by simp
qed

lemma input_fds_inv:
  assumes rdy: "input_ready sc env k x"
  shows "\<exists>x'. ssn_server_input_fds sc res junk env rfds x = Some x' \<and> server_inv k x'"
proof (cases "valid (srv x)")
  case True
  let ?y = "fold (input_bucket sc env rfds) [0..<IPC_CLI_HASH_SIZE] x"
  have "input_ready sc env k ?y" using rdy by (rule fold_inv) (rule input_bucket_inv)
  then have "syscalls_ok sc" "server_inv k ?y" by (simp_all add: input_ready_def)
  from new_connection_inv [OF this, of res junk rfds] obtain z where
    "ssn_server_handle_new_connection sc res junk rfds ?y = Some z" "server_inv k z" by blast
  with event_input_inv [of k z rfds] True show ?thesis by (simp add: ssn_server_input_fds_def)
qed (use rdy in \<open>simp add: ssn_server_input_fds_def input_ready_def\<close>)

text \<open>No descriptor is cut off by the first argument of \<^verbatim>\<open>pselect\<close>.\<close>

lemma fds_complete: "ssn_server_fds s = (m, rfds) \<Longrightarrow> filter (\<lambda>fd. fd < m + 1) rfds = rfds"
proof -
  assume "ssn_server_fds s = (m, rfds)"
  then have "rfds = [] \<or> m = fold max rfds (-1)"
    unfolding ssn_server_fds_def Let_def by (metis prod.inject)
  then show ?thesis using fold_max_ge [of "-1" rfds] by (auto intro!: filter_True)
qed

lemma ideal_pselect:
  assumes "valid (srv x)" "sv_transport (srv x) \<noteq> None"
  shows "\<exists>cnt ready y. server_pselect sc_ideal timeout x = Some (cnt, ready, y) \<and> 0 < cnt"
proof -
  obtain m rfds where f: "ssn_server_fds (srv x) = (m, rfds)" by fastforce
  have "rfds \<noteq> []" using f assms by (auto simp: ssn_server_fds_def Let_def)
  moreover have "pselect_retry sc_ideal rfds timeout w = Some (int (length rfds), rfds, os_tick w)" for w
    by (subst pselect_retry.simps) (simp add: os_pselect_def, simp add: sc_ideal_def)
  ultimately show ?thesis unfolding server_pselect_def f prod.case fds_complete [OF f] by simp
qed

lemma server_pselect_result:
  assumes "server_pselect sc timeout x = Some (cnt, ready, x')"
  shows "\<exists>w. x' = x\<lparr>wos := w\<rparr> \<and> same_io (wos x) w"
proof -
  obtain m rfds where f: "ssn_server_fds (srv x) = (m, rfds)" by fastforce
  from assms obtain w where
    "pselect_retry sc (filter (\<lambda>fd. fd < m + 1) rfds) timeout (wos x) = Some (cnt, ready, w)" "x' = x\<lparr>wos := w\<rparr>"
    by (auto simp: server_pselect_def f)
  with pselect_retry_result show ?thesis by blast
qed

text \<open>One call of \<^verbatim>\<open>ssn_server_poll\<close>: its outcome once \<^verbatim>\<open>pselect\<close> has returned.\<close>

lemma poll_outcome:
  assumes ok: "syscalls_ok sc" "env_ok sc env" and inv: "server_inv 0 x" and v: "valid (srv x)"
    and s: "server_pselect sc (poll_timeout ms) (ssn_server_ref x) = Some (cnt, ready, y)"
  shows "\<exists>r x' z. ssn_server_poll sc res junk env ms x = Some (r, x') \<and> server_inv 0 x' \<and>
    x' = ssn_server_unref z \<and> server_inv 1 z \<and>
    (if cnt > 0 then r = 0 \<and> ssn_server_input_fds sc res junk env ready y = Some z else r = cnt \<and> z = y)"
proof -
  obtain w where y: "y = (ssn_server_ref x)\<lparr>wos := w\<rparr>" "same_io (wos (ssn_server_ref x)) w"
    using server_pselect_result [OF s] by blast
  have "server_inv 1 (ssn_server_ref x)" using ref_inv [OF inv v] by simp
  then have y1: "server_inv 1 y" using y by (simp add: os_inv same_io_def)
  show ?thesis
  proof (cases "cnt > 0")
    case True
    from input_fds_inv [of sc env 1 y res junk ready] ok y1 obtain z where
      z: "ssn_server_input_fds sc res junk env ready y = Some z" "server_inv 1 z"
      by (auto simp: input_ready_def)
    have "server_inv 0 (ssn_server_unref z)" using poll_unref_inv [of 0 z] z(2) by simp
    with True s z show ?thesis by (simp add: ssn_server_poll_def)
  next
    case False
    have "server_inv 0 (ssn_server_unref y)" using poll_unref_inv [of 0 y] y1 by simp
    with False s y1 show ?thesis by (simp add: ssn_server_poll_def)
  qed
qed

lemma poll_inv:
  assumes "syscalls_ok sc" "env_ok sc env" "server_inv 0 x" "valid (srv x)"
    and p: "ssn_server_poll sc res junk env ms x = Some (r, x')"
  shows "server_inv 0 x'"
proof -
  from p obtain cnt ready y where "server_pselect sc (poll_timeout ms) (ssn_server_ref x) = Some (cnt, ready, y)"
    by (auto simp: ssn_server_poll_def split: option.splits)
  from poll_outcome [OF assms(1-4) this, of res junk] p show ?thesis by auto
qed

section \<open>The timer\<close>

lemma tick_inv:
  assumes inv: "server_inv k x"
  shows "server_inv k (x\<lparr>srv := timer_server (srv x)\<rparr>)"
proof -
  have t: "tick_hst = (\<lambda>c. c\<lparr>hst_alive := if hst_alive c \<le> SSN_TIMER_PERIOD then 0 else hst_alive c - SSN_TIMER_PERIOD\<rparr>)"
    by (simp add: tick_hst_def fun_eq_iff)
  have "server_inv k (x\<lparr>srv := fold (\<lambda>i. update_cli i tick_hst) js (srv x)\<rparr>)" for js
    using inv
  proof (induction js arbitrary: x)
    case (Cons i js)
    from upd_alive_inv [OF Cons.prems] have "server_inv k (upd_cli i tick_hst x)" by (simp add: t)
    from Cons.IH [OF this] show ?case by (simp add: upd_cli_def)
  qed simp
  note f = this
  have e: "server_inv k (x\<lparr>srv := (fold (\<lambda>i. update_cli i tick_hst) js (srv x))\<lparr>evt_count := n\<rparr>\<rparr>)" for js :: "u32 list" and n
    using f by (rule server_inv_frame) simp_all
  show ?thesis
    unfolding timer_server_def Let_def using inv f [of "hst_h (srv x)"] e [where js = "hst_h (srv x)"] by simp
qed

section \<open>Creation and start\<close>

lemma protocol_creates_open:
  "ssn_rpc_rep_create sc h a w = (r, w') \<Longrightarrow> os_open w' = os_open w"
  "ssn_pubsub_pub_create sc w = (p, w') \<Longrightarrow> os_open w' = os_open w"
  "ssn_msg_recv_create sc h a w = (m, w') \<Longrightarrow> os_open w' = os_open w"
  by (fastforce simp: ssn_rpc_rep_create_def ssn_pubsub_pub_create_def ssn_msg_recv_create_def os_calloc_def same_io_def
      split: option.splits bool.splits prod.splits dest!: create_frame)+

lemma event_pair_create_open:
  assumes "syscalls_ok sc" "ipc_event_pair_create sc w = (Some fd, w')"
  shows "0 \<le> fd" "os_open w' = fd # os_open w" "fd \<notin> set (os_open w)"
proof -
  have "0 \<le> fd \<and> fd \<notin> set fs" if "sc_socket sc n fs = Inr fd" for fd n fs
    using assms(1) that unfolding syscalls_ok_def by blast
  then show "0 \<le> fd" "os_open w' = fd # os_open w" "fd \<notin> set (os_open w)"
    using assms(2) by (fastforce simp: ipc_event_pair_create_def os_calloc_def os_socket_def
        split: bool.splits sum.splits if_splits prod.splits)+
qed

lemma empty_server_inv: "clients_inv empty_server"
  by (simp add: clients_inv_def table_ok_def all_clis_def empty_server_def)

lemma create_inv:
  assumes ok: "syscalls_ok sc" and c: "ssn_server_create_with_options sc name opts w = (Some s, w')"
  shows "server_inv 0 \<lparr>srv = s, wos = w', fac = g, usr = u\<rparr>" "valid s"
proof -
  obtain fd w1 w2 rep pub rcv where e: "ipc_event_pair_create sc w1 = (Some fd, w2)"
    and o: "os_open w' = os_open w2"
    and s: "s = (apply_options opts empty_server)\<lparr>evt_fd := fd, srv_name := take 63 (the name),
        rpc_rep := Some rep, pubsub_pub := Some pub, msg_recv := Some rcv, valid := True, ref_count := 1, listed := True\<rparr>"
    using c unfolding ssn_server_create_with_options_def
    by (fastforce split: if_splits prod.splits bool.splits option.splits simp: os_calloc_def dest: protocol_creates_open)
  note p = event_pair_create_open [OF ok e]
  show "valid s" by (simp add: s)
  have k: "clis s = clis empty_server" "hst_h s = hst_h empty_server" "sv_transport s = None" "\<not> freed s" "evt_fd s = fd"
    "ref_count s = 1"
    by (simp_all add: s apply_options_def empty_server_def split: option.split)
  have all: "all_clis s = []" unfolding all_clis_def k by (simp add: empty_server_def)
  have "clients_inv s" unfolding clients_inv_def table_ok_def all
    by (simp add: k empty_server_def IPC_CLI_HASH_SIZE_def)
  moreover have "fds_inv s w'"
    using p o by (simp add: fds_inv_def listen_fds_def event_fds_def k all)
  ultimately show "server_inv 0 \<lparr>srv = s, wos = w', fac = g, usr = u\<rparr>"
    using k \<open>valid s\<close> by (simp add: server_inv_def)
qed

lemma listen_keeps: "ssn_transport_listen sc t w = (b, t', w') \<Longrightarrow> fds t' = fds t \<and> os_open w' = os_open w"
  by (auto simp: ssn_transport_listen_def unix_transport_listen_def tcp_transport_listen_def udp_transport_listen_def
      os_stat_def os_bind_def os_listen_def os_status_def os_unlink_def fds_def Let_def
      split: transport_ops.splits prod.splits if_splits bool.splits option.splits file_kind.splits)

lemma bind_keeps: "fds (ssn_transport_bind t a) = fds t"
  by (simp add: ssn_transport_bind_def unix_transport_bind_def tcp_transport_bind_def udp_transport_bind_def
      inet_bind_def fds_def split: transport_ops.split)

lemma remove_stale_open: "remove_stale sc ty path w = (b, w') \<Longrightarrow> os_open w' = os_open w"
  by (auto simp: remove_stale_def os_stat_def os_unlink_def split: if_splits file_kind.splits)

text \<open>A new listener, or none.\<close>

lemma listener_inv:
  assumes inv: "server_inv k x" and w: "set (os_open w) = set (os_open (wos x)) \<union> (case r of None \<Rightarrow> {} | Some t \<Rightarrow> fds t)"
    and fresh: "\<And>t. r = Some t \<Longrightarrow> fds t \<inter> set (os_open (wos x)) = {}"
    and s: "s = (srv x)\<lparr>sv_transport := r, rpc_rep := a, pubsub_pub := b, msg_recv := c\<rparr>"
  shows "server_inv k (x\<lparr>srv := s, fac := g, wos := w\<rparr>)"
proof -
  have all: "all_clis s = all_clis (srv x)" "event_fds s = event_fds (srv x)"
    "listen_fds s = (case r of None \<Rightarrow> {} | Some t \<Rightarrow> fds t)"
    by (simp_all add: s all_clis_def event_fds_def listen_fds_def)
  have "listen_fds s \<inter> set (os_open (wos x)) = {}" unfolding all using fresh by (auto split: option.split)
  moreover have "set (os_open w) = set (os_open (wos x)) \<union> listen_fds s" using w all(3) by simp
  moreover have "fds_inv (srv x) (wos x)" using inv by (simp add: server_inv_def)
  ultimately have "fds_inv s w" unfolding fds_inv_def all(1,2) by blast
  moreover have "clients_inv s" using inv clients_inv_cong [of s "srv x"] by (simp add: s server_inv_def)
  ultimately show ?thesis using inv by (simp add: server_inv_def s)
qed

lemma start_inv:
  assumes ok: "syscalls_ok sc" and inv: "server_inv k x"
  shows "server_inv k (snd (ssn_server_start sc res junk x))"
proof (cases "valid (srv x) \<and> ssn_address_parse res (server_address_str (srv_name (srv x))) \<noteq> None")
  case False
  with inv show ?thesis by (auto simp: ssn_server_start_def)
next
  case True
  then obtain a where a: "ssn_address_parse res (server_address_str (srv_name (srv x))) = Some a" by auto
  obtain b w where st: "remove_stale sc (addr_type a) (srv_name (srv x)) (wos x) = (b, w)" by fastforce
  note o1 = remove_stale_open [OF st]
  obtain r g w1 where cr: "ssn_transport_create sc junk (addr_type a) (Some (server_config (addr_type a) (srv x))) (fac x) w = (r, g, w1)"
    by (metis prod_cases3)
  note c = create_result [OF ok cr]
  have none: "server_inv k (x\<lparr>srv := (srv x)\<lparr>sv_transport := None\<rparr>, fac := g, wos := w'\<rparr>)"
    if "set (os_open w') = set (os_open (wos x))" for w'
    by (rule listener_inv [OF inv, where r = None and a = "rpc_rep (srv x)" and b = "pubsub_pub (srv x)" and
          c = "msg_recv (srv x)"]) (use that in simp_all)
  have v: "valid (srv x)" using True by simp
  show ?thesis
  proof (cases "b \<and> r \<noteq> None")
    case False
    have "snd (ssn_server_start sc res junk x) = (if b then x\<lparr>srv := (srv x)\<lparr>sv_transport := None\<rparr>, fac := g, wos := w1\<rparr> else x\<lparr>wos := w\<rparr>)"
      unfolding ssn_server_start_def a option.case st prod.case cr using v False by (cases b) simp_all
    moreover have "b \<Longrightarrow> set (os_open w1) = set (os_open (wos x))" using c False o1 by simp
    ultimately show ?thesis using none [of w1] os_inv [OF inv o1] by simp
  next
    case created: True
    then obtain t where t: "r = Some t" by auto
    obtain b2 t2 w2 where l: "ssn_transport_listen sc (ssn_transport_bind t a) w1 = (b2, t2, w2)" by (metis prod_cases3)
    have k: "fds t2 = fds t" "os_open w2 = os_open w1" using listen_keeps [OF l] by (simp_all add: bind_keeps)
    have o: "set (os_open w2) = set (os_open (wos x)) \<union> fds t2" "fds t2 \<inter> set (os_open (wos x)) = {}"
      using c o1 k by (simp_all add: t)
    have fin: "server_inv k (x\<lparr>srv := bind_protocols ((srv x)\<lparr>sv_transport := Some t2\<rparr>), fac := g, wos := w2\<rparr>)"
      by (rule listener_inv [OF inv, where r = "Some t2"]) (use o in \<open>simp_all add: bind_protocols_def\<close>)
    have fail: "server_inv k (x\<lparr>srv := (srv x)\<lparr>sv_transport := None\<rparr>, fac := g, wos := ssn_transport_destroy t2 w2\<rparr>)"
      by (rule none) (use o in \<open>auto simp: tr.destroy_fds\<close>)
    have "snd (ssn_server_start sc res junk x) =
        (if b2 then x\<lparr>srv := bind_protocols ((srv x)\<lparr>sv_transport := Some t2\<rparr>), fac := g, wos := w2\<rparr>
         else x\<lparr>srv := (srv x)\<lparr>sv_transport := None\<rparr>, fac := g, wos := ssn_transport_destroy t2 w2\<rparr>)"
      unfolding ssn_server_start_def a option.case st prod.case cr t l using v created by (cases b2) simp_all
    with fin fail show ?thesis by simp
  qed
qed

lemma start_valid: "valid (srv (snd (ssn_server_start sc res junk x))) = valid (srv x)"
  by (auto simp: ssn_server_start_def bind_protocols_def split: option.split prod.split bool.split)

section \<open>Reachable states\<close>

inductive server_reachable ::
  "syscalls \<Rightarrow> resolver \<Rightarrow> bytes option \<Rightarrow> 'u server_env \<Rightarrow> 'u world \<Rightarrow> bool" for sc res junk env where
  reach_create: "ssn_server_create_with_options sc name opts w = (Some s, w') \<Longrightarrow>
    server_reachable sc res junk env \<lparr>srv = s, wos = w', fac = g, usr = u\<rparr>"
| reach_start: "server_reachable sc res junk env x \<Longrightarrow> valid (srv x) \<Longrightarrow>
    server_reachable sc res junk env (snd (ssn_server_start sc res junk x))"
| reach_api: "server_reachable sc res junk env x \<Longrightarrow> valid (srv x) \<Longrightarrow> api_step sc x x' \<Longrightarrow>
    server_reachable sc res junk env x'"
| reach_poll: "server_reachable sc res junk env x \<Longrightarrow> valid (srv x) \<Longrightarrow>
    ssn_server_poll sc res junk env ms x = Some (r, x') \<Longrightarrow> server_reachable sc res junk env x'"
| reach_timer: "server_reachable sc res junk env x \<Longrightarrow> listed (srv x) \<Longrightarrow>
    server_reachable sc res junk env (x\<lparr>srv := timer_server (srv x)\<rparr>)"

lemma reachable_inv:
  assumes "server_reachable sc res junk env x" "syscalls_ok sc" "env_ok sc env"
  shows "server_inv 0 x"
  using assms(1)
proof (induction rule: server_reachable.induct)
  case (reach_create name opts w s w' g u)
  show ?case by (rule create_inv(1) [OF assms(2) reach_create])
next
  case (reach_start x)
  show ?case by (rule start_inv [OF assms(2) reach_start.IH])
next
  case (reach_api x x')
  show ?case by (rule api_step_inv [OF reach_api.hyps(3) assms(2) order_refl reach_api.IH])
next
  case (reach_poll x ms r x')
  show ?case by (rule poll_inv [OF assms(2,3) reach_poll.IH reach_poll.hyps(2,3)])
next
  case (reach_timer x)
  show ?case by (rule tick_inv [OF reach_timer.IH])
qed

lemma reachable_idle:
  assumes "server_reachable sc res junk env x" "syscalls_ok sc" "env_ok sc env"
  shows "freed (srv x) \<longleftrightarrow> \<not> valid (srv x)"
  using reachable_inv [OF assms] by (auto simp: server_inv_def)

section \<open>Properties\<close>

text \<open>An application that answers every RPC request and does nothing else.\<close>

definition echo_env :: "syscalls \<Rightarrow> 'u server_env" where
  "echo_env sc = \<lparr>rpc_fn = (\<lambda>f i p a x. snd (ssn_server_response sc i 0 (ssn_get_seqno (load_header p)) (Some (packet_data p)) x)),
     msg_fn = (\<lambda>f i u d a x. x), cli_fn = (\<lambda>f i b a x. x)\<rparr>"

lemma echo_env_ok: "env_ok sc (echo_env sc)"
  by (auto simp: env_ok_def echo_env_def intro: r_into_rtranclp api_response)

definition example_world :: "nat world" where
  "example_world = (case ssn_server_create sc_ideal (Some ''/tmp/s'') os_init of (s, w) \<Rightarrow>
     \<lparr>srv = the s, wos = w, fac = None, usr = 0\<rparr>)"

lemma example_created:
  "ssn_server_create_with_options sc_ideal (Some ''/tmp/s'') None os_init = (Some (srv example_world), wos example_world)"
proof -
  have "fst (ssn_server_create sc_ideal (Some ''/tmp/s'') os_init) \<noteq> None" by code_simp
  then show ?thesis by (auto simp: example_world_def ssn_server_create_def split: prod.splits)
qed

lemma example_reachable: "server_reachable sc_ideal res junk (echo_env sc_ideal) example_world"
proof -
  have "example_world = \<lparr>srv = srv example_world, wos = wos example_world, fac = None, usr = 0\<rparr>"
    by (simp add: example_world_def split: prod.split)
  with reach_create [OF example_created] show ?thesis by metis
qed

lemma example_valid: "valid (srv example_world)"
  by (rule create_inv(2) [OF sc_ideal_ok example_created])

text \<open>C3. In every state a server reaches, through any sequence of starts, calls of the public
  functions, polls (with whatever clients send, any failing system call and any handler that acts
  through the public functions) and timer passes: client ids are distinct and every client is in
  the bucket of its id, the timer list holds exactly the linked clients, each once, every
  client's stream context is one the parser can go on with, the number of clients does not exceed
  the configured maximum, the descriptors of listener, event pair and clients are open and
  pairwise distinct, and the server's memory has been freed exactly when nobody holds a reference.\<close>

theorem server_invariant:
  assumes "syscalls_ok sc" "env_ok sc env" "server_reachable sc res junk env x"
  shows "server_inv 0 x"
  using assms by (intro reachable_inv)

theorem server_invariant_witness:
  "server_inv 0 example_world \<and> server_reachable sc_ideal decimal_resolver None (echo_env sc_ideal) example_world"
  using server_invariant [OF sc_ideal_ok echo_env_ok example_reachable] example_reachable by blast



text \<open>C8. Destruction is deferred to the end of the poll: whatever handlers do, \<^verbatim>\<open>ssn_server_destroy\<close>
  included, the server still exists when the input has been handled (state \<open>z\<close>). If it is still valid
  nothing is freed; otherwise it is freed before poll returns, and exactly the descriptors it
  owned at that moment are closed.\<close>

theorem server_destroy_deferred:
  assumes "syscalls_ok sc" "env_ok sc env" "server_reachable sc res junk env x" "valid (srv x)"
    and s: "server_pselect sc (poll_timeout ms) (ssn_server_ref x) = Some (cnt, ready, y)" and cnt: "0 < cnt"
    and z: "ssn_server_input_fds sc res junk env ready y = Some z"
  shows "\<not> freed (srv z) \<and> (\<exists>x'. ssn_server_poll sc res junk env ms x = Some (0, x') \<and>
    valid (srv x') = valid (srv z) \<and> freed (srv x') = (\<not> valid (srv z)) \<and>
    set (os_open (wos x')) = set (os_open (wos z)) - (if valid (srv z) then {} else owned_fds (srv z)) \<and>
    (\<not> valid (srv z) \<longrightarrow> owned_fds (srv x') = {} \<and> all_clis (srv x') = []))"
proof -
  have inv: "server_inv 0 x" using assms by (intro reachable_inv)
  from poll_outcome [OF assms(1,2) inv assms(4) s, of res junk] cnt z obtain x' where
    p: "ssn_server_poll sc res junk env ms x = Some (0, x')" and x': "x' = ssn_server_unref z" and z1: "server_inv 1 z"
    by auto
  have nf: "\<not> freed (srv z)" and rc: "ref_count (srv z) = 1 + of_bool (valid (srv z))" and c: "clients_inv (srv z)"
    using z1 by (simp_all add: server_inv_def)
  define y where "y = z\<lparr>srv := (srv z)\<lparr>ref_count := ref_count (srv z) - 1\<rparr>\<rparr>"
  have y: "clients_inv (srv y)" "\<not> freed (srv y)" "owned_fds (srv y) = owned_fds (srv z)" "valid (srv y) = valid (srv z)"
    "wos y = wos z"
    using c nf clients_inv_cong [of "srv y" "srv z"]
    by (simp_all add: y_def owned_fds_def listen_fds_def event_fds_def all_clis_def)
  have u: "x' = (if valid (srv z) then y else ssn_server_free_resources y)"
    using rc by (auto simp: x' ssn_server_unref_def y_def Let_def)
  note e = free_resources_effect [OF y(1,2)]
  show ?thesis
    by (cases "valid (srv z)") (use p nf u y e in simp_all)
qed

definition started_world :: "nat world" where
  "started_world = snd (ssn_server_start sc_ideal decimal_resolver None example_world)"

lemma started_listens: "sv_transport (srv started_world) \<noteq> None"
  by code_simp

theorem server_destroy_deferred_witness:
  "\<exists>x'. ssn_server_poll sc_ideal decimal_resolver None (echo_env sc_ideal) 100 started_world = Some (0, x') \<and>
    freed (srv x') = (\<not> valid (srv x'))"
proof -
  have r: "server_reachable sc_ideal decimal_resolver None (echo_env sc_ideal) started_world"
    unfolding started_world_def by (rule reach_start [OF example_reachable example_valid])
  have v: "valid (srv started_world)" unfolding started_world_def using start_valid example_valid by metis
  obtain cnt ready y where s: "server_pselect sc_ideal (poll_timeout 100) (ssn_server_ref started_world) = Some (cnt, ready, y)"
    "0 < cnt"
  proof -
    have "valid (srv (ssn_server_ref started_world))" "sv_transport (srv (ssn_server_ref started_world)) \<noteq> None"
      using v started_listens by (simp_all add: ssn_server_ref_def)
    from ideal_pselect [OF this] that show thesis by blast
  qed
  from poll_outcome [OF sc_ideal_ok echo_env_ok reachable_inv [OF r sc_ideal_ok echo_env_ok] v s(1), of decimal_resolver None] s(2)
  obtain z where "ssn_server_input_fds sc_ideal decimal_resolver None (echo_env sc_ideal) ready y = Some z" by auto
  from server_destroy_deferred [OF sc_ideal_ok echo_env_ok r v s this] show ?thesis by metis
qed

end
