(* ===== verification/Ssn_Server_Props.thy ===== *)
theory Ssn_Server_Props
  imports Ssn_Server_Reach
begin

text \<open>
  What the clients of a server observe: subscriptions, published messages, the table of methods, the
  connection limit, idle and handshake timeouts.
\<close>

section \<open>Subscriptions\<close>



section \<open>Methods\<close>

lemma url_hash_less: "ssn_server_url_hash url < IPC_CMD_HASH_SIZE"
proof -
  have "x AND 31 = x mod 32" for x :: int
    using take_bit_eq_mask [of 5 x] by (simp add: take_bit_eq_mod mask_eq_exp_minus_1)
  then show ?thesis by (simp add: ssn_server_url_hash_def IPC_CMD_HASH_SIZE_def nat_less_iff)
qed

text \<open>The three places where a command is looked for.\<close>

definition exact_cmd :: "ssn_server \<Rightarrow> bytes \<Rightarrow> server_cmd option" where
  "exact_cmd s url = List.find (\<lambda>c. cmd_url c = url) (cmds s ! ssn_server_url_hash url)"

definition below :: "bytes \<Rightarrow> bytes \<Rightarrow> bool" where
  "below path url \<longleftrightarrow> url = path \<or> (\<exists>rest. url = path @ 47 # rest)"

definition prefix_cmd :: "ssn_server \<Rightarrow> bytes \<Rightarrow> server_cmd option" where
  "prefix_cmd s url = List.find (\<lambda>c. below (cmd_url c) url) (prefix_h s)"

lemma below_test:
  "below path url \<longleftrightarrow> length path \<le> length url \<and> path = take (length path) url \<and>
     (length path = length url \<or> url ! length path = 47)"
proof
  assume r: "length path \<le> length url \<and> path = take (length path) url \<and> (length path = length url \<or> url ! length path = 47)"
  show "below path url"
  proof (cases "length path = length url")
    case False
    with r have "url = path @ drop (length path) url" "drop (length path) url \<noteq> []"
      by (metis append_take_drop_id, simp)
    moreover from this r have "hd (drop (length path) url) = 47" by (simp add: hd_drop_conv_nth False)
    ultimately show ?thesis unfolding below_def by (metis list.collapse)
  qed (use r in \<open>simp add: below_def\<close>)
qed (auto simp: below_def)

lemma cmd_match_places:
  "ssn_server_cmd_match s url = (case exact_cmd s url of Some c \<Rightarrow> Some c | None \<Rightarrow>
     (case prefix_cmd s url of Some c \<Rightarrow> Some c | None \<Rightarrow> def_cmd s))"
proof -
  have e: "(length (cmd_url c) = length url \<and> cmd_url c = url) = (cmd_url c = url)" for c by auto
  show ?thesis unfolding ssn_server_cmd_match_def exact_cmd_def prefix_cmd_def below_test e ..
qed

lemma find_append: "List.find P (xs @ ys) = (case List.find P xs of None \<Rightarrow> List.find P ys | Some x \<Rightarrow> Some x)"
  by (induction xs) auto



text \<open>C34. Finding: \<^verbatim>\<open>ssn_server_remove_method\<close> takes a prefix command out of the list and frees it but
  leaves \<^verbatim>\<open>prefix_t\<close>. When the command was the last one of the list, \<^verbatim>\<open>prefix_t\<close> then points to freed
  memory, and adding the next prefix command writes through it.\<close>

theorem prefix_tail_dangles:
  assumes u: "good_url (Some u)" "is_prefix (url_bytes u)" and tail: "prefix_tail_ok (srv x)"
    and new: "\<forall>c \<in> set (prefix_h (srv x)). cmd_url c \<noteq> method_path (url_bytes u) \<and> cmd_addr c \<noteq> next_addr (srv x)"
    and add: "ssn_server_add_method sc (Some u) (Some f) arg x = (True, x1)"
    and u2: "is_prefix (url_bytes u2)"
    and add2: "ssn_server_add_method sc (Some u2) (Some f2) arg2 (ssn_server_remove_method (Some u) x1) = (True, x2)"
  shows "corrupt (srv x2)"
proof -
  let ?cmd = "\<lparr>cmd_addr = next_addr (srv x), onrpc = f, cmd_arg = arg, cmd_url = method_path (url_bytes u)\<rparr>"
  have nd: "\<not> is_default (url_bytes v)" if "is_prefix (url_bytes v)" for v using that by (simp add: is_prefix_def)
  have s1: "valid (srv x1)" "prefix_h (srv x1) = prefix_h (srv x) @ [?cmd]" "prefix_t (srv x1) = Some (next_addr (srv x))"
    using add u tail nd [OF u(2)]
    by (auto simp: ssn_server_add_method_def insert_prefix_def prefix_tail_ok_def Let_def split: if_splits bool.splits prod.splits)
  have "remove_cmd p (cs @ [c]) = cs" if "\<forall>c \<in> set cs. cmd_url c \<noteq> p" "cmd_url c = p" for p cs c
    using that by (induction cs) auto
  then have rm: "prefix_h (srv (ssn_server_remove_method (Some u) x1)) = prefix_h (srv x)"
    "prefix_t (srv (ssn_server_remove_method (Some u) x1)) = Some (next_addr (srv x))"
    using s1 u nd [OF u(2)] new by (simp_all add: ssn_server_remove_method_def Let_def)
  have "\<not> prefix_tail_ok (srv (ssn_server_remove_method (Some u) x1))"
    unfolding prefix_tail_ok_def rm using new last_in_set [of "prefix_h (srv x)"] by auto
  then have bad: "\<not> prefix_tail_ok ((srv (ssn_server_remove_method (Some u) x1))\<lparr>next_addr := n\<rparr>)" for n
    by (auto simp: prefix_tail_ok_def)
  show ?thesis using add2 u2 nd [OF u2] bad
    by (auto simp: ssn_server_add_method_def insert_prefix_def Let_def split: if_splits bool.splits prod.splits)
qed

definition prefix_url :: ssn_url_ref where
  "prefix_url = \<lparr>url_ptr = Some [47, 97, 47], url_len = 3\<rparr>"

theorem prefix_tail_dangles_witness:
  "corrupt (srv (snd (ssn_server_add_method sc_ideal (Some prefix_url) (Some 1) 0
     (ssn_server_remove_method (Some prefix_url) (snd (ssn_server_add_method sc_ideal (Some prefix_url) (Some 1) 0 example_world))))))"
proof -
  let ?a = "ssn_server_add_method sc_ideal (Some prefix_url) (Some 1) 0"
  have h: "good_url (Some prefix_url) \<and> is_prefix (url_bytes prefix_url) \<and> prefix_tail_ok (srv example_world) \<and>
      prefix_h (srv example_world) = [] \<and> fst (?a example_world) \<and>
      fst (?a (ssn_server_remove_method (Some prefix_url) (snd (?a example_world))))"
    by code_simp
  obtain x1 where x1: "?a example_world = (True, x1)" using h by (metis prod.collapse)
  obtain x2 where x2: "?a (ssn_server_remove_method (Some prefix_url) x1) = (True, x2)"
    using h x1 by (metis prod.collapse snd_conv)
  have "\<forall>c \<in> set (prefix_h (srv example_world)). cmd_url c \<noteq> method_path (url_bytes prefix_url) \<and> cmd_addr c \<noteq> next_addr (srv example_world)"
    using h by simp
  from prefix_tail_dangles [OF _ _ _ this x1 _ x2] h x1 x2 show ?thesis by simp
qed

end
