(* ===== verification/Ssn_Server_Publish.thy ===== *)
theory Ssn_Server_Publish
  imports Ssn_Server_Reach
begin

text \<open>
  What the clients of a server receive when it publishes a message.
\<close>

section \<open>Publishing\<close>

lemma set_lengths_idem: "set_lengths (set_lengths h u d) u d = set_lengths h u d"
  by (cases u; cases d) (simp_all add: set_lengths_def ssn_set_url_length_def ssn_set_data_length_def)

lemma encode_set_lengths [simp]: "encode_frame (set_lengths h u d) u d = encode_frame h u d"
  by (simp add: encode_frame_def set_lengths_idem)

lemma send_message_header:
  assumes "sendable url data" "url_ok url" "data_ok data"
    and m: "ssn_send_message sc t buf0 url data w = (r, buf1, t', w')"
  shows "encode_frame (load_header buf1) url data = encode_frame (load_header buf0) url data"
proof -
  let ?f = "encode_frame (load_header buf0) url data"
  obtain b where b: "ssn_send_message sc t buf0 url data w =
      (case send_loop sc (ssn_transport_get_fd (Some t)) ?f 0 (send_timeout t) t w of (ok, t, w) \<Rightarrow> (ok, b, t, w))"
    "take (length ?f) b = ?f"
    using send_message_runs [OF assms(1-3)] by metis
  have "buf1 = b" using m b(1) by (auto split: prod.splits)
  moreover have "15 \<le> length ?f" using length_encode_frame [OF assms(2,3)] by (simp add: total_length_def SSN_HEADER_SIZE_def)
  then have "load_header b = load_header ?f" using b(2) load_header_take [of "length ?f" b] by simp
  ultimately show ?thesis using load_encode_frame [of _ url data "[]"] by simp
qed

lemma close_fd_sent: "close_fd t w = (t', w') \<Longrightarrow> sent_on g w' = sent_on g w"
  by (auto simp: close_fd_def os_close_def sent_on_def split: if_splits)

lemma disconnect_sent: "ssn_transport_disconnect t w = (b, t', w') \<Longrightarrow> sent_on g w' = sent_on g w"
  by (auto simp: ssn_transport_disconnect_def unix_transport_disconnect_def tcp_transport_disconnect_def
      udp_transport_disconnect_def split: transport_ops.splits intro: close_fd_sent)

text \<open>What sending one message to one client does.\<close>

lemma sendmsg_effect:
  assumes ok: "syscalls_ok sc" and m: "sendable url data" "url_ok url" "data_ok data"
    and cli: "ssn_server_cli_find (srv x) i = Some cli"
    and r: "ssn_server_cli_sendmsg sc i url data x = (b, x')"
  defines "frame \<equiv> encode_frame (load_header (sendbuf (srv x))) url data"
  shows "\<exists>n t buf w. x' = x\<lparr>srv := (update_cli i (\<lambda>c. c\<lparr>cli_transport := t\<rparr>) (srv x))\<lparr>sendbuf := buf\<rparr>, wos := w\<rparr> \<and>
    n \<le> length frame \<and> (b \<longleftrightarrow> n = length frame) \<and> fds t = (if b then cli_fds cli else {}) \<and>
    (\<forall>g. sent_on g w = (if g = tr_fd (cli_transport cli) then sent_on g (wos x) @ take n frame else sent_on g (wos x))) \<and>
    encode_frame (load_header buf) url data = frame"
proof -
  obtain b1 buf t w where s: "ssn_send_message sc (cli_transport cli) (sendbuf (srv x)) url data (wos x) = (b1, buf, t, w)"
    by (metis prod_cases4)
  obtain n where n: "sent_prefix frame (send_timeout (cli_transport cli)) (cli_transport cli) (wos x) (b1, t, w) n"
    using send_message_sends [OF ok m s] unfolding frame_def by blast
  obtain b2 t2 w2 where d: "ssn_transport_disconnect t w = (b2, t2, w2)" by (metis prod_cases3)
  have x': "b = b1" "x' = x\<lparr>srv := (update_cli i (\<lambda>c. c\<lparr>cli_transport := if b1 then t else t2\<rparr>) (srv x))\<lparr>sendbuf := buf\<rparr>,
      wos := if b1 then w else w2\<rparr>"
    using r by (simp_all add: ssn_server_cli_sendmsg_def cli s d split: if_splits)
  have "fds t = cli_fds cli" using n by (simp add: sent_prefix_def fds_def)
  moreover have "fds t2 = {}" using tr.disconnect_fds [OF d] by simp
  moreover have "sent_on g w2 = sent_on g w" for g using disconnect_sent [OF d] .
  ultimately show ?thesis
    by (intro exI [of _ n] exI [of _ "if b1 then t else t2"] exI [of _ buf] exI [of _ "if b1 then w else w2"])
      (use x' n send_message_header [OF m s] in \<open>simp add: sent_prefix_def frame_def\<close>)
qed

text \<open>The publishing loop, seen from one client with descriptor \<open>g\<close>: sending to the others changes
  neither the client nor what is sent on \<open>g\<close>.\<close>

definition watched :: "u32 \<Rightarrow> int \<Rightarrow> bytes \<Rightarrow> ssn_url_ref option \<Rightarrow> ssn_data_ref option \<Rightarrow> server_cli option \<Rightarrow> bytes \<Rightarrow> int \<Rightarrow>
    'u world \<Rightarrow> bool" where
  "watched i g frame url data c sent k x \<longleftrightarrow> server_inv k x \<and>
     (\<forall>d \<in> set (all_clis (srv x)). cli_id d \<noteq> i \<longrightarrow> g \<notin> cli_fds d) \<and>
     encode_frame (load_header (sendbuf (srv x))) url data = frame \<and>
     ssn_server_cli_find (srv x) i = c \<and> sent_on g (wos x) = sent"

lemma all_clis_sendbuf [simp]: "all_clis (s\<lparr>sendbuf := b\<rparr>) = all_clis s"
  "ssn_server_cli_find (s\<lparr>sendbuf := b\<rparr>) j = ssn_server_cli_find s j"
  by (simp_all add: all_clis_def ssn_server_cli_find_def)

lemma watched_other:
  assumes ok: "syscalls_ok sc" and m: "sendable (Some url) data" "url_ok (Some url)" "data_ok data"
    and g: "0 \<le> g" and j: "j \<noteq> i" and wt: "watched i g frame (Some url) data c sent k x"
  shows "watched i g frame (Some url) data c sent k (publish_to sc url data j x)"
proof (cases "ssn_server_cli_find (srv x) j")
  case (Some d)
  show ?thesis
  proof (cases "active d \<and> ssn_server_cli_sub_match d (url_bytes url)")
    case True
    obtain b x' where r: "ssn_server_cli_sendmsg sc j (Some url) data x = (b, x')" by fastforce
    have inv: "server_inv k x" and c: "clients_inv (srv x)" using wt by (simp_all add: watched_def server_inv_def)
    have d: "d \<in> set (all_clis (srv x))" "cli_id d = j" using Some find_cli(1) [OF c] by auto
    let ?f = "encode_frame (load_header (sendbuf (srv x))) (Some url) data"
    have f: "?f = frame" using wt by (simp add: watched_def)
    obtain n t buf w where
      x': "x' = x\<lparr>srv := (update_cli j (\<lambda>c. c\<lparr>cli_transport := t\<rparr>) (srv x))\<lparr>sendbuf := buf\<rparr>, wos := w\<rparr>"
      and t: "fds t = (if b then cli_fds d else {})"
      and w: "\<forall>g. sent_on g w = (if g = tr_fd (cli_transport d) then sent_on g (wos x) @ take n ?f else sent_on g (wos x))"
      and buf: "encode_frame (load_header buf) (Some url) data = ?f"
      using sendmsg_effect [OF ok m Some r] by blast
    have gd: "g \<notin> cli_fds d" using wt d j by (simp add: watched_def)
    then have "g \<noteq> tr_fd (cli_transport d)" using g by (auto simp: fds_def)
    then have sent: "sent_on g w = sent" using w wt by (simp add: watched_def)
    have inv': "server_inv k x'" by (rule sendmsg_inv [OF ok inv r])
    have free: "g \<notin> cli_fds e" if e: "e \<in> set (all_clis (srv x'))" "cli_id e \<noteq> i" for e
    proof -
      obtain e0 where e0: "e0 \<in> set (all_clis (srv x))" "e = (if cli_id e0 = j then e0\<lparr>cli_transport := t\<rparr> else e0)"
        using e(1) by (auto simp: x' update_refines [OF clients_invD(1) [OF c]])
      show ?thesis
      proof (cases "cli_id e0 = j")
        case True
        then show ?thesis using e0(2) t gd by simp
      next
        case False
        then show ?thesis using e0 e(2) wt by (simp add: watched_def)
      qed
    qed
    have find: "ssn_server_cli_find (srv x') i = c"
      using wt j by (simp add: x' find_update [OF c] watched_def)
    have "publish_to sc url data j x = x'" using True Some r by (simp add: publish_to_def)
    moreover have "sendbuf (srv x') = buf" "wos x' = w" by (simp_all add: x')
    ultimately show ?thesis
      unfolding watched_def using inv' free find sent buf f by simp
  qed (use wt Some in \<open>auto simp: publish_to_def\<close>)
qed (use wt in \<open>simp add: publish_to_def\<close>)

lemma watched_others:
  assumes "syscalls_ok sc" "sendable (Some url) data" "url_ok (Some url)" "data_ok data" "0 \<le> g"
  shows "i \<notin> set js \<Longrightarrow> watched i g frame (Some url) data c sent k x \<Longrightarrow>
    watched i g frame (Some url) data c sent k (fold (publish_to sc url data) js x)"
proof (induction js arbitrary: x)
  case (Cons a js)
  have "watched i g frame (Some url) data c sent k (publish_to sc url data a x)"
    by (rule watched_other [OF assms]) (use Cons.prems in auto)
  with Cons show ?case by simp
qed simp

text \<open>The step for the client itself.\<close>

lemma watched_self:
  assumes ok: "syscalls_ok sc" and m: "sendable (Some url) data" "url_ok (Some url)" "data_ok data"
    and g: "tr_fd (cli_transport c) = g" and wt: "watched (cli_id c) g frame (Some url) data (Some c) sent k z"
    and on: "active c" "ssn_server_cli_sub_match c (url_bytes url)"
  shows "\<exists>n \<le> length frame. \<exists>t. fds t = (if n = length frame then cli_fds c else {}) \<and>
    watched (cli_id c) g frame (Some url) data (Some (c\<lparr>cli_transport := t\<rparr>)) (sent @ take n frame) k
      (publish_to sc url data (cli_id c) z)"
proof -
  let ?i = "cli_id c" and ?f = "encode_frame (load_header (sendbuf (srv z))) (Some url) data"
  obtain b z1 where r: "ssn_server_cli_sendmsg sc ?i (Some url) data z = (b, z1)" by fastforce
  have f: "ssn_server_cli_find (srv z) ?i = Some c" and inv: "server_inv k z" and zc: "clients_inv (srv z)"
    and fr: "?f = frame" and sent: "sent_on g (wos z) = sent"
    using wt by (simp_all add: watched_def server_inv_def)
  obtain n t buf w where
    z1: "z1 = z\<lparr>srv := (update_cli ?i (\<lambda>c. c\<lparr>cli_transport := t\<rparr>) (srv z))\<lparr>sendbuf := buf\<rparr>, wos := w\<rparr>"
    and n: "n \<le> length ?f" "b \<longleftrightarrow> n = length ?f" "fds t = (if b then cli_fds c else {})"
    and w: "\<forall>g. sent_on g w = (if g = tr_fd (cli_transport c) then sent_on g (wos z) @ take n ?f else sent_on g (wos z))"
    and buf: "encode_frame (load_header buf) (Some url) data = ?f"
    using sendmsg_effect [OF ok m f r] by blast
  have inv1: "server_inv k z1" by (rule sendmsg_inv [OF ok inv r])
  have free: "g \<notin> cli_fds d" if d: "d \<in> set (all_clis (srv z1))" "cli_id d \<noteq> ?i" for d
  proof -
    obtain e where "e \<in> set (all_clis (srv z))" "d = (if cli_id e = ?i then e\<lparr>cli_transport := t\<rparr> else e)"
      using d(1) by (auto simp: z1 update_refines [OF clients_invD(1) [OF zc]])
    with d(2) wt show ?thesis by (auto simp: watched_def split: if_splits)
  qed
  have find: "ssn_server_cli_find (srv z1) ?i = Some (c\<lparr>cli_transport := t\<rparr>)"
    using f by (simp add: z1 find_update [OF zc])
  have "watched ?i g frame (Some url) data (Some (c\<lparr>cli_transport := t\<rparr>)) (sent @ take n frame) k z1"
    unfolding watched_def using inv1 free find w g sent buf fr by (simp add: z1)
  moreover have "publish_to sc url data ?i z = z1" using on f r by (simp add: publish_to_def)
  ultimately show ?thesis using n fr by metis
qed

lemma split_distinct:
  assumes "x \<in> set xs" "distinct xs"
  obtains ys zs where "xs = ys @ x # zs" "x \<notin> set ys" "x \<notin> set zs"
  using split_list [OF assms(1)] assms(2) by auto

text \<open>C11. Publishing: \<^verbatim>\<open>ssn_server_publish\<close> of a message that fits a packet sends its frame to exactly the
  active clients with a matching subscription. Such a client gets the whole frame once, or, when the
  send fails, a prefix of it, and is then disconnected; on the descriptors of all other clients
  nothing is sent and those clients are unchanged.\<close>

theorem publish_delivers:
  assumes ok: "syscalls_ok sc" and inv: "server_inv k x" and v: "valid (srv x)"
    and url: "good_url (Some url)" "url_ok (Some url)" "data_ok data" "sendable (Some url) data"
    and c: "c \<in> set (all_clis (srv x))" and g: "tr_fd (cli_transport c) = g" "0 \<le> g"
    and p: "ssn_server_publish sc (Some url) data x = (b, x')"
    and frame: "frame = encode_frame (ssn_create_header SSN_MSG_TYPE_PUBLISH 0 0) (Some url) data"
  shows "b \<and> (\<exists>n \<le> length frame. \<exists>c'. ssn_server_cli_find (srv x') (cli_id c) = Some c' \<and>
    sent_on g (wos x') = sent_on g (wos x) @ take n frame \<and>
    (if active c \<and> ssn_server_cli_sub_match c (url_bytes url)
     then cli_fds c' = (if n = length frame then {g} else {})
     else n = 0 \<and> c' = c))"
proof -
  let ?i = "cli_id c" and ?y = "create_header SSN_MSG_TYPE_PUBLISH 0 0 x"
  let ?wt = "watched ?i g frame (Some url) data" and ?pub = "publish_to sc url data"
  have cinv: "clients_inv (srv x)" and finv: "fds_inv (srv x) (wos x)" using inv by (simp_all add: server_inv_def)
  have cg: "cli_fds c = {g}" using g by (simp add: fds_def)
  have b: "b" and x': "x' = fold ?pub (map cli_id (all_clis (srv x))) ?y"
    using p v url(1) by (simp_all add: ssn_server_publish_def ssn_server_do_publish_def)
  obtain as bs where ids: "map cli_id (all_clis (srv x)) = as @ ?i # bs" "?i \<notin> set as" "?i \<notin> set bs"
    by (rule split_distinct [of ?i "map cli_id (all_clis (srv x))"]) (use c cinv in \<open>auto simp: clients_inv_def\<close>)
  have "g \<notin> cli_fds d" if "d \<in> set (all_clis (srv x))" "cli_id d \<noteq> ?i" for d
    using finv c that cg unfolding fds_inv_def by blast
  moreover have "ssn_server_cli_find (srv x) ?i = Some c" using find_cli(1) [OF cinv] c by simp
  ultimately have y: "?wt (Some c) (sent_on g (wos x)) k ?y"
    using create_header_inv [OF inv, of SSN_MSG_TYPE_PUBLISH 0 0]
    by (simp add: watched_def create_header_def create_header_at_def frame)
  note others = watched_others [OF ok url(4,2,3) g(2), of ?i]
  define z where "z = fold ?pub as ?y"
  have z: "?wt (Some c) (sent_on g (wos x)) k z" unfolding z_def using others [OF ids(2) y] .
  have last: "x' = fold ?pub bs (?pub ?i z)" unfolding x' ids(1) z_def by simp
  show ?thesis
  proof (cases "active c \<and> ssn_server_cli_sub_match c (url_bytes url)")
    case False
    then have "?pub ?i z = z" using z by (auto simp: publish_to_def watched_def)
    with others [OF ids(3) z] have "?wt (Some c) (sent_on g (wos x)) k x'" unfolding last by simp
    with b False show ?thesis by (auto simp: watched_def intro!: exI [of _ 0])
  next
    case True
    then obtain n t where n: "n \<le> length frame" "fds t = (if n = length frame then {g} else {})"
      "?wt (Some (c\<lparr>cli_transport := t\<rparr>)) (sent_on g (wos x) @ take n frame) k (?pub ?i z)"
      using watched_self [OF ok url(4,2,3) g(1) z, unfolded cg] by blast
    from others [OF ids(3) n(3)] have "?wt (Some (c\<lparr>cli_transport := t\<rparr>)) (sent_on g (wos x) @ take n frame) k x'"
      unfolding last .
    with b True n show ?thesis by (auto simp: watched_def intro!: exI [of _ n])
  qed
qed

text \<open>A server with one client that has subscribed to \<^verbatim>\<open>/a\<close>.\<close>

definition sub_cli :: server_cli where
  "sub_cli = (new_cli (set_fd 77 example_tr))\<lparr>active := True, subscribed := [[47, 97]]\<rparr>"

definition sub_world :: "nat world" where
  "sub_world = example_world\<lparr>srv := the (ssn_server_cli_init sub_cli (srv example_world)),
     wos := (wos example_world)\<lparr>os_open := 77 # os_open (wos example_world)\<rparr>\<rparr>"

lemma sub_world_inv: "server_inv 0 sub_world"
proof -
  have inv: "server_inv 0 example_world"
    by (rule reachable_inv [OF example_reachable sc_ideal_ok echo_env_ok])
  have e: "77 \<notin> set (os_open (wos example_world)) \<and> length (all_clis (srv example_world)) < unat (max_connections (srv example_world))"
    by code_simp
  have "cli_ok sub_cli" using new_cli_ok(1) [of "set_fd 77 example_tr"] by (simp add: sub_cli_def cli_ok_def)
  moreover have "cli_fds sub_cli = {77}" by (simp add: sub_cli_def new_cli_def fds_def)
  ultimately have "\<exists>s'. ssn_server_cli_init sub_cli (srv example_world) = Some s' \<and>
      server_inv 0 (example_world\<lparr>srv := s', wos := (wos example_world)\<lparr>os_open := 77 # os_open (wos example_world)\<rparr>\<rparr>)"
    by (intro init_inv [OF inv]) (use e in auto)
  then show ?thesis unfolding sub_world_def by (metis option.sel)
qed

lemma sub_world_client:
  "ssn_server_cli_find (srv sub_world) 0 = Some (sub_cli\<lparr>cli_id := 0, hst_alive := 5000, hst_linked := True\<rparr>) \<and> valid (srv sub_world)"
  by code_simp

theorem publish_delivers_witness:
  "\<exists>x' n c'. ssn_server_publish sc_ideal (Some example_url) (Some example_data) sub_world = (True, x') \<and>
    ssn_server_cli_find (srv x') 0 = Some c' \<and>
    cli_fds c' = (if n = length (encode_frame (ssn_create_header SSN_MSG_TYPE_PUBLISH 0 0) (Some example_url) (Some example_data)) then {77} else {}) \<and>
    sent_on 77 (wos x') = take n (encode_frame (ssn_create_header SSN_MSG_TYPE_PUBLISH 0 0) (Some example_url) (Some example_data))"
proof -
  let ?c = "sub_cli\<lparr>cli_id := 0, hst_alive := 5000, hst_linked := True\<rparr>"
  obtain b x' where p: "ssn_server_publish sc_ideal (Some example_url) (Some example_data) sub_world = (b, x')" by fastforce
  have cinv: "clients_inv (srv sub_world)" using sub_world_inv by (simp add: server_inv_def)
  have c: "?c \<in> set (all_clis (srv sub_world))" using sub_world_client find_cli(1) [OF cinv] by blast
  have g: "tr_fd (cli_transport ?c) = 77" by (simp add: sub_cli_def new_cli_def)
  have u: "good_url (Some example_url)" by (simp add: good_url_def example_url_def url_bytes_def)
  have none: "sent_on 77 (wos sub_world) = []" by code_simp
  have "0 \<le> (77 :: int)" "valid (srv sub_world)" "cli_id ?c = 0" using sub_world_client by simp_all
  note d = publish_delivers [OF sc_ideal_ok sub_world_inv this(2) u example_sendable(2,3,1) c g this(1) p refl, unfolded this(3)]
  let ?f = "encode_frame (ssn_create_header SSN_MSG_TYPE_PUBLISH 0 0) (Some example_url) (Some example_data)"
  from d obtain n c' where f: "ssn_server_cli_find (srv x') 0 = Some c'"
    and s: "sent_on 77 (wos x') = sent_on 77 (wos sub_world) @ take n ?f"
    and w: "if active ?c \<and> ssn_server_cli_sub_match ?c (url_bytes example_url)
      then cli_fds c' = (if n = length ?f then {77} else {}) else n = 0 \<and> c' = ?c"
    by blast
  have "active ?c \<and> ssn_server_cli_sub_match ?c (url_bytes example_url)" by code_simp
  with w have "cli_fds c' = (if n = length ?f then {77} else {})" by (simp only: if_True)
  moreover have "sent_on 77 (wos x') = take n ?f" using s none by (metis append_Nil)
  moreover have "ssn_server_publish sc_ideal (Some example_url) (Some example_data) sub_world = (True, x')"
    using p conjunct1 [OF d] by (simp only: eq_True)
  ultimately show ?thesis using f by blast
qed

end
