(* ===== verification/Spec2Isabelle.thy ===== *)
theory Spec2Isabelle
  imports Ssn_Server_Props Ssn_Server_Publish
begin

text \<open>
  \<^bold>\<open>SSN, a C framework for inter-process communication over sockets.\<close>

  \<^medskip>
  \<^bold>\<open>The program.\<close> A message travels in a frame: a 15 byte header, a URL and data
  (\<^verbatim>\<open>ssn_frame.c\<close>). Frames are written to and read from a transport, one of three adapters over
  sockets (\<^verbatim>\<open>transports/ssn_transport_unix.c\<close>, \<^verbatim>\<open>_tcp.c\<close>, \<^verbatim>\<open>_udp.c\<close>) that a factory creates by type
  (\<^verbatim>\<open>ssn_transport_factory.c\<close>, with the hash table \<^verbatim>\<open>util/ssn_hash_table.c\<close>) for an address
  (\<^verbatim>\<open>ssn_transport.c\<close>). On top stand the protocol contexts (\<^verbatim>\<open>protocol/\<close>: request and reply,
  publish and subscribe, messages) and the server (\<^verbatim>\<open>ssn_server.c\<close>), which accepts clients, keeps
  their subscriptions and timers, dispatches their packets and publishes to them.

  \<^medskip>
  \<^bold>\<open>How it is modelled.\<close> A struct is a record, an enumeration a datatype, a function of the code a
  function of the same name. Unsigned integers are words of their width; an \<^verbatim>\<open>int\<close> is an integer,
  reduced to 32 bits where the code converts to it. Memory contents are lists of bytes. State is
  passed and returned. Everything outside the process is the record \<open>syscalls\<close> of
  \<open>Ssn_Os\<close>: for every system call a function from a call counter and the arguments to its
  result, so that a theorem about all \<open>syscalls\<close> covers every pattern of failures, partial
  writes, interrupts and allocation failures; \<open>syscalls_ok\<close> states what POSIX documents of them, and
  \<open>sc_ideal\<close> is the instance without failures that the witnesses use. Name resolution and
  IP address texts are the parameter \<open>resolver\<close>, the contents of fresh \<^verbatim>\<open>malloc\<close> memory the
  parameter \<open>junk\<close>, handlers of the application the records \<open>reply_env\<close>, \<open>protocol_env\<close> and
  \<open>server_env\<close>.

  \<^medskip>
  \<^bold>\<open>Theories.\<close>
  \<^item> \<open>Ssn_Prelude\<close>: types, byte order, memory copies, lists of buckets.
  \<^item> \<open>Ssn_Os\<close>: the operating system; the event pair of \<^verbatim>\<open>vsi/ipc_event.c\<close>; the \<^verbatim>\<open>pselect\<close> retry
    loop and that it returns.
  \<^item> \<open>Ssn_Address\<close>: addresses, parsed and printed on every branch; the round trips.
  \<^item> \<open>Ssn_Hash_Table\<close>: the table with integer and string keys as a finite map, also across
    growth; the key that is lost when \<^verbatim>\<open>malloc\<close> memory is not zero.
  \<^item> \<open>Ssn_Transport\<close>, \<open>Ssn_Transport_Factory\<close>: the adapters and the factory. The locale
    \<open>fd_owner\<close> is the contract of a transport that owns a descriptor; it is interpreted for each
    adapter and for the dispatching functions. No descriptor leaks.
  \<^item> \<open>Ssn_Frame\<close>: headers, validation, sending with partial writes and a deadline.
  \<^item> \<open>Ssn_Stream\<close>: the stream parser, its specification on unread bytes and the refinement. The
    locale \<open>packet_handler\<close> is the contract between the parser and a handler.
  \<^item> \<open>Ssn_Error\<close>: error codes and messages.
  \<^item> \<open>Ssn_Protocol_Base\<close>, \<open>Ssn_Rpc\<close>, \<open>Ssn_Pubsub\<close>, \<open>Ssn_Protocol\<close>: the protocol
    contexts; the pool of pending requests as a map from sequence numbers, deadlines, delivery. The
    locale \<open>frame_consumer\<close> is the contract of a module that consumes frames of one type.
  \<^item> \<open>Ssn_Server_State\<close>, \<open>Ssn_Server\<close>: the data of \<^verbatim>\<open>ssn_server.c\<close> and all its functions.
  \<^item> \<open>Ssn_Server_Inv\<close>, \<open>Ssn_Server_Keeps\<close>, \<open>Ssn_Server_Reach\<close>: the client table as a
    list, the invariant of the server and of its descriptors, that every function, every packet, a
    whole poll and a timer pass keep it, and the reachable states; poll returns; destruction is
    deferred while a poll runs. The server's packet handler interprets \<open>packet_handler\<close>.
  \<^item> \<open>Ssn_Server_Props\<close>: subscriptions and methods of the server.
  \<^item> \<open>Ssn_Server_Publish\<close>: what a published message sends on the descriptor of each client.

  \<^medskip>
  \<^bold>\<open>Loops and termination.\<close> Loops with a bound are total functions (the send loop by the bytes left
  and the deadline, the parser by the bytes left, the search for a sequence number by its counter).
  Loops that may not end are partial functions into \<open>option\<close>, where not returning is \<open>None\<close>: the
  retry of an interrupted \<^verbatim>\<open>pselect\<close>, the search for a client id, the run loops; that they return is
  proved for the first two (\<open>pselect_retry_returns\<close>, \<open>newid_fresh\<close>) and for a whole poll.
  No fuel is used.

  \<^medskip>
  \<^bold>\<open>Not modelled.\<close> The interleaving of threads: each function runs to its end, as under the locks the
  code takes, and a timer pass happens between calls; data races and the deadlocks of
  \<^verbatim>\<open>ssn_global.c\<close> are out of scope. The blocking client (\<^verbatim>\<open>ssn_client.c\<close>), which waits on a
  condition shared with its receive thread, the reconnecting client \<^verbatim>\<open>ssn_cliauto.c\<close> and the node
  facade \<^verbatim>\<open>node/\<close> on top of it; the C++ framework, which adds threads and third-party JSON; platform
  wrappers, logging and version strings, which have no logic; the Windows and pipe variants of the
  event pair; socket options, time stamps of statistics, and the limit of \<^verbatim>\<open>fd_set\<close>.
  Freed memory is not reused: reading it is recorded where the code does it (\<open>corrupt\<close>, \<open>freed\<close>).
\<close>

end
